theory Spec2Isabelle
  imports Main
begin

unbundle bit_operations_syntax

section \<open>Python strings and integers\<close>

text \<open>
  A Python \<open>str\<close> is modelled by the list of the bytes of its UTF-8 encoding
  (\<open>string\<close>). Splitting, replacing and searching with ASCII separators give the same
  result on the bytes as on the code points. The method \<open>strip\<close> removes every character
  that Python counts as white space, each recognised by its UTF-8 bytes. The method
  \<open>lower\<close> is modelled on the ASCII range: the script only compares a lowered text with the
  words \<open>yes\<close>, \<open>xml\<close>, \<open>json\<close>, \<open>grepable\<close> and \<open>normal\<close>, and the only character
  outside ASCII whose lower-case form is an ASCII text is the Kelvin sign U+212A, which
  becomes \<open>k\<close>, a letter none of these words has; so each comparison is decided as in
  Python.
\<close>

definition is_digit :: "char \<Rightarrow> bool" where
  "is_digit c = (48 \<le> (of_char c :: nat) \<and> (of_char c :: nat) \<le> 57)"

text \<open>\<open>s.isascii() and s.isdigit()\<close>: false on the empty string.\<close>

definition isascii_isdigit :: "string \<Rightarrow> bool" where
  "isascii_isdigit s = (s \<noteq> [] \<and> list_all is_digit s)"

definition digit_val :: "char \<Rightarrow> nat" where
  "digit_val c = of_char c - 48"

text \<open>\<open>int(s)\<close> on a string of ASCII digits, read from the left.\<close>

definition int_of_digits :: "string \<Rightarrow> int" where
  "int_of_digits s = int (foldl (\<lambda>acc c. 10 * acc + digit_val c) 0 s)"

definition digit_char :: "nat \<Rightarrow> char" where
  "digit_char d = ''0123456789'' ! d"

text \<open>\<open>str(n)\<close> for a natural number and for an integer.\<close>

fun str_nat :: "nat \<Rightarrow> string" where
  "str_nat n = (if n < 10 then [digit_char n] else str_nat (n div 10) @ [digit_char (n mod 10)])"

declare str_nat.simps [simp del]

definition str_int :: "int \<Rightarrow> string" where
  "str_int i = (if i < 0 then CHR ''-'' # str_nat (nat (- i)) else str_nat (nat i))"

text \<open>\<open>s.split(sep)\<close> for a separator of one character: never an empty list.\<close>

fun split_char :: "char \<Rightarrow> string \<Rightarrow> string list" where
  "split_char sep [] = [[]]"
| "split_char sep (c # cs) =
     (if c = sep then [] # split_char sep cs
      else (case split_char sep cs of
              [] \<Rightarrow> [[c]]
            | p # ps \<Rightarrow> (c # p) # ps))"

text \<open>\<open>s.startswith(p)\<close> and the substring test \<open>p in s\<close>.\<close>

fun startswith :: "string \<Rightarrow> string \<Rightarrow> bool" where
  "startswith s [] = True"
| "startswith [] (a # p) = False"
| "startswith (c # s) (a # p) = (c = a \<and> startswith s p)"

fun str_contains :: "string \<Rightarrow> string \<Rightarrow> bool" where
  "str_contains p [] = (p = [])"
| "str_contains p (c # s) = (startswith (c # s) p \<or> str_contains p s)"

text \<open>
  \<open>s.replace(old, new)\<close>: the occurrences of \<open>old\<close> are replaced from the left, without
  overlap; an empty \<open>old\<close> matches before every character and at the end.
\<close>

function replace_from :: "string \<Rightarrow> string \<Rightarrow> string \<Rightarrow> string" where
  "replace_from old new s =
     (if old = [] then concat (map (\<lambda>c. new @ [c]) s) @ new
      else if s = [] then []
      else if startswith s old then new @ replace_from old new (drop (length old) s)
      else hd s # replace_from old new (tl s))"
  by pat_completeness auto
termination
  by (relation "measure (\<lambda>(old, new, s). length s)") auto

declare replace_from.simps [simp del]

text \<open>
  White space as \<open>str.strip()\<close> sees it: tab, line feed, vertical tab, form feed, carriage
  return, the four separators 28 to 31 and the space; then U+0085, U+00A0, U+1680, U+2000
  to U+200A, U+2028, U+2029, U+202F, U+205F and U+3000, each by the bytes of its UTF-8
  encoding. No entry is the beginning or the end of another, so at most one of them begins
  a text and at most one ends it.
\<close>

definition whitespace :: "string list" where
  "whitespace =
     [[CHR 0x09], [CHR 0x0A], [CHR 0x0B], [CHR 0x0C], [CHR 0x0D],
      [CHR 0x1C], [CHR 0x1D], [CHR 0x1E], [CHR 0x1F], [CHR 0x20],
      [CHR 0xC2, CHR 0x85], [CHR 0xC2, CHR 0xA0], [CHR 0xE1, CHR 0x9A, CHR 0x80],
      [CHR 0xE2, CHR 0x80, CHR 0x80], [CHR 0xE2, CHR 0x80, CHR 0x81], [CHR 0xE2, CHR 0x80, CHR 0x82],
      [CHR 0xE2, CHR 0x80, CHR 0x83], [CHR 0xE2, CHR 0x80, CHR 0x84], [CHR 0xE2, CHR 0x80, CHR 0x85],
      [CHR 0xE2, CHR 0x80, CHR 0x86], [CHR 0xE2, CHR 0x80, CHR 0x87], [CHR 0xE2, CHR 0x80, CHR 0x88],
      [CHR 0xE2, CHR 0x80, CHR 0x89], [CHR 0xE2, CHR 0x80, CHR 0x8A],
      [CHR 0xE2, CHR 0x80, CHR 0xA8], [CHR 0xE2, CHR 0x80, CHR 0xA9], [CHR 0xE2, CHR 0x80, CHR 0xAF],
      [CHR 0xE2, CHR 0x81, CHR 0x9F], [CHR 0xE3, CHR 0x80, CHR 0x80]]"

text \<open>
  \<open>space_prefix s\<close> is the number of bytes of the white-space character that begins \<open>s\<close>,
  and 0 when \<open>s\<close> begins with none; \<open>space_suffix\<close> is the same for the end of \<open>s\<close>.
  \<open>str.strip()\<close> moves an index up from the left and one down from the right over the
  white-space characters, and returns what is between them.
\<close>

definition space_prefix :: "string \<Rightarrow> nat" where
  "space_prefix s = (case find (startswith s) whitespace of None \<Rightarrow> 0 | Some p \<Rightarrow> length p)"

definition space_suffix :: "string \<Rightarrow> nat" where
  "space_suffix s =
     (case find (\<lambda>p. startswith (rev s) (rev p)) whitespace of None \<Rightarrow> 0 | Some p \<Rightarrow> length p)"

function lstrip :: "string \<Rightarrow> string" where
  "lstrip s = (if space_prefix s = 0 then s else lstrip (drop (space_prefix s) s))"
  by pat_completeness auto
termination
proof (relation "measure length")
  show "wf (measure length)"
    by simp
next
  fix s :: string
  assume pre: "space_prefix s \<noteq> 0"
  then have "s \<noteq> []"
    by (auto simp: space_prefix_def whitespace_def)
  with pre show "(drop (space_prefix s) s, s) \<in> measure length"
    by simp
qed

function rstrip :: "string \<Rightarrow> string" where
  "rstrip s = (if space_suffix s = 0 then s else rstrip (take (length s - space_suffix s) s))"
  by pat_completeness auto
termination
proof (relation "measure length")
  show "wf (measure length)"
    by simp
next
  fix s :: string
  assume suf: "space_suffix s \<noteq> 0"
  then have "s \<noteq> []"
    by (auto simp: space_suffix_def whitespace_def)
  with suf show "(take (length s - space_suffix s) s, s) \<in> measure length"
    by simp
qed

declare lstrip.simps [simp del]
declare rstrip.simps [simp del]

definition strip :: "string \<Rightarrow> string" where
  "strip s = rstrip (lstrip s)"

definition lower_char :: "char \<Rightarrow> char" where
  "lower_char c =
     (case map_of (zip ''ABCDEFGHIJKLMNOPQRSTUVWXYZ'' ''abcdefghijklmnopqrstuvwxyz'') c of
        None \<Rightarrow> c
      | Some l \<Rightarrow> l)"

definition lower :: "string \<Rightarrow> string" where
  "lower s = map lower_char s"

section \<open>The standard library's \<open>ipaddress.IPv4Network\<close>\<close>

text \<open>
  \<open>validate_cidr\<close> is decided by the constructor \<open>ipaddress.IPv4Network(cidr)\<close> of the
  Python standard library, called with its default \<open>strict=True\<close>. The definitions below
  follow \<open>Lib/ipaddress.py\<close> of CPython 3.11 function by function, for a \<open>str\<close>
  argument. The three exceptions the module raises are \<open>ValueError\<close> and its two
  subclasses, so \<open>except ValueError\<close> catches every value of \<open>value_error\<close>.
\<close>

datatype value_error = ValueError | AddressValueError | NetmaskValueError

datatype mask_arg = MaskInt int | MaskStr string

definition IPV4LENGTH :: nat where
  "IPV4LENGTH = 32"

definition ALL_ONES :: int where
  "ALL_ONES = 2 ^ IPV4LENGTH - 1"

text \<open>\<open>_split_optional_netmask\<close>: at most one slash.\<close>

definition split_optional_netmask :: "string \<Rightarrow> value_error + string list" where
  "split_optional_netmask address =
     (let addr = split_char CHR ''/'' address
      in if length addr > 2 then Inl AddressValueError else Inr addr)"

text \<open>\<open>_split_addr_prefix\<close>: without a slash the mask is the integer 32.\<close>

definition split_addr_prefix :: "string \<Rightarrow> value_error + (string \<times> mask_arg)" where
  "split_addr_prefix address =
     (case split_optional_netmask address of
        Inl e \<Rightarrow> Inl e
      | Inr parts \<Rightarrow>
          (case parts of
             a # m # _ \<Rightarrow> Inr (a, MaskStr m)
           | _ \<Rightarrow> Inr (hd parts, MaskInt (int IPV4LENGTH))))"

text \<open>\<open>_parse_octet\<close>: one to three ASCII digits, no leading zero, at most 255.\<close>

definition parse_octet :: "string \<Rightarrow> value_error + int" where
  "parse_octet octet_str =
     (if octet_str = [] then Inl ValueError
      else if \<not> isascii_isdigit octet_str then Inl ValueError
      else if length octet_str > 3 then Inl ValueError
      else if octet_str \<noteq> ''0'' \<and> hd octet_str = CHR ''0'' then Inl ValueError
      else (let octet_int = int_of_digits octet_str
            in if octet_int > 255 then Inl ValueError else Inr octet_int))"

text \<open>\<open>map(cls._parse_octet, octets)\<close>, consumed from the left: the first failure is raised.\<close>

fun parse_octets :: "string list \<Rightarrow> value_error + int list" where
  "parse_octets [] = Inr []"
| "parse_octets (s # ss) =
     (case parse_octet s of
        Inl e \<Rightarrow> Inl e
      | Inr v \<Rightarrow> (case parse_octets ss of Inl e \<Rightarrow> Inl e | Inr vs \<Rightarrow> Inr (v # vs)))"

text \<open>\<open>int.from_bytes(bs, 'big')\<close>.\<close>

definition from_bytes_big :: "int list \<Rightarrow> int" where
  "from_bytes_big bs = foldl (\<lambda>acc b. 256 * acc + b) 0 bs"

text \<open>\<open>_ip_int_from_string\<close>: a failure of an octet is re-raised as AddressValueError.\<close>

definition ip_int_from_string :: "string \<Rightarrow> value_error + int" where
  "ip_int_from_string ip_str =
     (if ip_str = [] then Inl AddressValueError
      else (let octets = split_char CHR ''.'' ip_str
            in if length octets \<noteq> 4 then Inl AddressValueError
               else (case parse_octets octets of
                       Inl e \<Rightarrow> Inl AddressValueError
                     | Inr bs \<Rightarrow> Inr (from_bytes_big bs))))"

text \<open>\<open>IPv4Address(address)\<close> for a string, and \<open>_check_int_address\<close> for an integer.\<close>

definition IPv4Address_str :: "string \<Rightarrow> value_error + int" where
  "IPv4Address_str addr_str =
     (if CHR ''/'' \<in> set addr_str then Inl AddressValueError
      else ip_int_from_string addr_str)"

definition IPv4Address_int :: "int \<Rightarrow> value_error + int" where
  "IPv4Address_int address =
     (if address < 0 then Inl AddressValueError
      else if address > ALL_ONES then Inl AddressValueError
      else Inr address)"

text \<open>\<open>int.bit_length()\<close>: the number of bits of the absolute value.\<close>

fun bit_length_nat :: "nat \<Rightarrow> nat" where
  "bit_length_nat k = (if k = 0 then 0 else Suc (bit_length_nat (k div 2)))"

definition bit_length :: "int \<Rightarrow> nat" where
  "bit_length i = bit_length_nat (nat \<bar>i\<bar>)"

definition count_righthand_zero_bits :: "int \<Rightarrow> nat \<Rightarrow> nat" where
  "count_righthand_zero_bits number bits =
     (if number = 0 then bits
      else min bits (bit_length (NOT number AND (number - 1))))"

definition ip_int_from_prefix :: "nat \<Rightarrow> int" where
  "ip_int_from_prefix prefixlen = ALL_ONES XOR (drop_bit prefixlen ALL_ONES)"

text \<open>\<open>_prefix_from_ip_int\<close>: the prefix length of a mask of ones followed by zeroes.\<close>

definition prefix_from_ip_int :: "int \<Rightarrow> value_error + nat" where
  "prefix_from_ip_int ip_int =
     (let trailing_zeroes = count_righthand_zero_bits ip_int IPV4LENGTH;
          prefixlen = IPV4LENGTH - trailing_zeroes;
          leading_ones = drop_bit trailing_zeroes ip_int;
          all_ones = push_bit prefixlen 1 - 1
      in if leading_ones \<noteq> all_ones then Inl ValueError else Inr prefixlen)"

text \<open>
  \<open>_prefix_from_prefix_string\<close>. \<open>int()\<close> refuses a string of more than 4300 digits
  (\<open>sys.int_max_str_digits\<close>) with a ValueError, reported as an invalid netmask.
\<close>

definition prefix_from_prefix_string :: "string \<Rightarrow> value_error + nat" where
  "prefix_from_prefix_string prefixlen_str =
     (if \<not> isascii_isdigit prefixlen_str then Inl NetmaskValueError
      else if length prefixlen_str > 4300 then Inl NetmaskValueError
      else (let prefixlen = int_of_digits prefixlen_str
            in if \<not> (0 \<le> prefixlen \<and> prefixlen \<le> int IPV4LENGTH) then Inl NetmaskValueError
               else Inr (nat prefixlen)))"

text \<open>\<open>_prefix_from_ip_string\<close>: a dotted netmask, or else a dotted hostmask.\<close>

definition prefix_from_ip_string :: "string \<Rightarrow> value_error + nat" where
  "prefix_from_ip_string ip_str =
     (case ip_int_from_string ip_str of
        Inl e \<Rightarrow> Inl NetmaskValueError
      | Inr ip_int \<Rightarrow>
          (case prefix_from_ip_int ip_int of
             Inr p \<Rightarrow> Inr p
           | Inl e \<Rightarrow>
               (case prefix_from_ip_int (ip_int XOR ALL_ONES) of
                  Inr p \<Rightarrow> Inr p
                | Inl e' \<Rightarrow> Inl NetmaskValueError)))"

text \<open>\<open>_make_netmask\<close>: the pair of the netmask and the prefix length.\<close>

definition make_netmask :: "mask_arg \<Rightarrow> value_error + (int \<times> nat)" where
  "make_netmask arg =
     (case (case arg of
              MaskInt prefixlen \<Rightarrow>
                (if \<not> (0 \<le> prefixlen \<and> prefixlen \<le> int IPV4LENGTH) then Inl NetmaskValueError
                 else Inr (nat prefixlen))
            | MaskStr s \<Rightarrow>
                (case prefix_from_prefix_string s of
                   Inr p \<Rightarrow> Inr p
                 | Inl NetmaskValueError \<Rightarrow> prefix_from_ip_string s
                 | Inl e \<Rightarrow> Inl e)) of
        Inl e \<Rightarrow> Inl e
      | Inr prefixlen \<Rightarrow>
          (case IPv4Address_int (ip_int_from_prefix prefixlen) of
             Inl e \<Rightarrow> Inl e
           | Inr netmask \<Rightarrow> Inr (netmask, prefixlen)))"

record ipv4_network =
  net_address :: int
  net_mask :: int
  net_prefixlen :: nat

text \<open>\<open>IPv4Network.__init__(address, strict=True)\<close>: host bits set are a ValueError.\<close>

definition IPv4Network :: "string \<Rightarrow> value_error + ipv4_network" where
  "IPv4Network address =
     (case split_addr_prefix address of
        Inl e \<Rightarrow> Inl e
      | Inr (addr, mask_part) \<Rightarrow>
          (case IPv4Address_str addr of
             Inl e \<Rightarrow> Inl e
           | Inr network \<Rightarrow>
               (case make_netmask mask_part of
                  Inl e \<Rightarrow> Inl e
                | Inr (nmask, plen) \<Rightarrow>
                    (let packed = network
                     in if packed AND nmask \<noteq> packed then Inl ValueError
                        else Inr \<lparr>net_address = network, net_mask = nmask,
                                  net_prefixlen = plen\<rparr>))))"

section \<open>The environment of the script\<close>

text \<open>
  What the script reads from and writes to the outside is a record: the lines waiting on
  the standard input, each the text \<open>input\<close> returns for it, in UTF-8 (\<open>None\<close> at the end
  of the input), the wall clock, the file system's
  answer to \<open>os.path.exists\<close>, the result of the \<open>nmap\<close> library's scan (\<open>None\<close> when
  \<open>nmap.PortScanner()\<close> or its \<open>scan\<close> raises PortScannerError), the lines the
  \<open>nmap\<close> process writes to its standard output, the state of the progress bar, and the
  trace of what the script did, in order. The external scanner's own work (its probes,
  the report file it writes) is not part of the script and is not modelled;
  \<open>time.sleep(0.1)\<close> changes nothing of this record and is left out.
\<close>

datatype py_error = EOFError | PortScannerError | UnicodeDecodeError | KeyError

datatype event =
    Prompt string
  | Print string
  | PortScan string string
  | Popen string

record datetime =
  dt_year :: nat
  dt_month :: nat
  dt_day :: nat
  dt_hour :: nat
  dt_minute :: nat
  dt_second :: nat

record host_report =
  hr_host :: string
  hr_state :: string
  hr_protocols :: "(string \<times> (int \<times> string) list) list"

record tqdm =
  tqdm_n :: int
  tqdm_total :: int

record world =
  stdin :: "nat \<Rightarrow> string option"
  stdin_pos :: nat
  trace :: "event list"
  clock :: datetime
  path_exists :: "string \<Rightarrow> bool"
  port_scanner :: "string \<Rightarrow> string \<Rightarrow> host_report list option"
  popen_stdout :: "string \<Rightarrow> string list"
  pbar :: tqdm

definition emit :: "event \<Rightarrow> world \<Rightarrow> world" where
  "emit e w = w\<lparr>trace := trace w @ [e]\<rparr>"

definition py_print :: "string \<Rightarrow> world \<Rightarrow> world" where
  "py_print s w = emit (Print s) w"

text \<open>\<open>input(prompt)\<close>: shows the prompt, then reads a line or raises EOFError.\<close>

definition py_input :: "string \<Rightarrow> world \<Rightarrow> (py_error + string) \<times> world" where
  "py_input prompt w =
     (let w' = emit (Prompt prompt) w
      in case stdin w (stdin_pos w) of
           None \<Rightarrow> (Inl EOFError, w')
         | Some line \<Rightarrow> (Inr line, w'\<lparr>stdin_pos := Suc (stdin_pos w)\<rparr>))"

text \<open>
  \<open>datetime.now().strftime("%Y%m%d_%H%M%S")\<close>. The month, day, hour, minute and second
  are padded with zeroes to two digits; the C library prints the year as it is.
\<close>

definition zfill :: "nat \<Rightarrow> string \<Rightarrow> string" where
  "zfill width s = replicate (width - length s) CHR ''0'' @ s"

definition strftime :: "datetime \<Rightarrow> string" where
  "strftime d =
     str_nat (dt_year d) @ zfill 2 (str_nat (dt_month d)) @ zfill 2 (str_nat (dt_day d)) @ ''_'' @
     zfill 2 (str_nat (dt_hour d)) @ zfill 2 (str_nat (dt_minute d)) @
     zfill 2 (str_nat (dt_second d))"

text \<open>
  \<open>bytes.decode("utf-8")\<close>: the well-formed byte sequences of UTF-8 (no overlong form, no
  surrogate, nothing above U+10FFFF); any other line raises UnicodeDecodeError. The
  decoded \<open>str\<close> is represented by the same bytes.
\<close>

definition byte_in :: "char \<Rightarrow> nat \<Rightarrow> nat \<Rightarrow> bool" where
  "byte_in c lo hi = (lo \<le> (of_char c :: nat) \<and> (of_char c :: nat) \<le> hi)"

fun utf8_valid :: "string \<Rightarrow> bool" where
  "utf8_valid [] = True"
| "utf8_valid [a] = byte_in a 0 127"
| "utf8_valid [a, b] =
     (if byte_in a 0 127 then utf8_valid [b]
      else byte_in a 194 223 \<and> byte_in b 128 191)"
| "utf8_valid [a, b, c] =
     (if byte_in a 0 127 then utf8_valid [b, c]
      else if byte_in a 194 223 then byte_in b 128 191 \<and> utf8_valid [c]
      else (byte_in a 224 224 \<and> byte_in b 160 191 \<or>
            byte_in a 225 236 \<and> byte_in b 128 191 \<or>
            byte_in a 237 237 \<and> byte_in b 128 159 \<or>
            byte_in a 238 239 \<and> byte_in b 128 191) \<and> byte_in c 128 191)"
| "utf8_valid (a # b # c # d # rest) =
     (if byte_in a 0 127 then utf8_valid (b # c # d # rest)
      else if byte_in a 194 223 then byte_in b 128 191 \<and> utf8_valid (c # d # rest)
      else if byte_in a 224 239 then
        (byte_in a 224 224 \<and> byte_in b 160 191 \<or>
         byte_in a 225 236 \<and> byte_in b 128 191 \<or>
         byte_in a 237 237 \<and> byte_in b 128 159 \<or>
         byte_in a 238 239 \<and> byte_in b 128 191) \<and> byte_in c 128 191 \<and> utf8_valid (d # rest)
      else (byte_in a 240 240 \<and> byte_in b 144 191 \<or>
            byte_in a 241 243 \<and> byte_in b 128 191 \<or>
            byte_in a 244 244 \<and> byte_in b 128 143) \<and>
           byte_in c 128 191 \<and> byte_in d 128 191 \<and> utf8_valid rest)"

definition decode_utf8 :: "string \<Rightarrow> string option" where
  "decode_utf8 line = (if utf8_valid line then Some line else None)"

section \<open>The script\<close>

subsection \<open>\<open>getHelp\<close>\<close>

definition help_text :: string where
  "help_text =
     [CHR 0x0A] @
     ''    Network Scanning Script'' @ [CHR 0x0A] @
     ''    -----------------------'' @ [CHR 0x0A] @
     ''    This script performs an Nmap scan on a given network CIDR range, validates input, '' @ [CHR 0x0A] @
     ''    and saves the results in a user-specified format.'' @ [CHR 0x0A] @
     [CHR 0x0A] @
     ''    Usage:'' @ [CHR 0x0A] @
     ''        python script.py'' @ [CHR 0x0A] @
     ''    '' @ [CHR 0x0A] @
     ''    Features:'' @ [CHR 0x0A] @
     ''    - CIDR validation'' @ [CHR 0x0A] @
     ''    - Nmap scanning with custom options'' @ [CHR 0x0A] @
     ''    - Progress tracking with tqdm'' @ [CHR 0x0A] @
     ''    - Results saved in XML, JSON, grepable, or normal format'' @ [CHR 0x0A] @
     [CHR 0x0A] @
     ''    Options:'' @ [CHR 0x0A] @
     ''    - You will be prompted to enter a CIDR range (e.g., 192.168.1.0/24)'' @ [CHR 0x0A] @
     ''    - You can choose an output format: xml, json, grepable, or normal'' @ [CHR 0x0A] @
     ''    - The scan uses default options: '' @ [CHR 0x27] @ ''-sS -sV -O -A -p 1-1000'' @ [CHR 0x27] @ [CHR 0x0A] @
     [CHR 0x0A] @
     ''    Example:'' @ [CHR 0x0A] @
     ''        Please enter the CIDR range: 192.168.1.0/24'' @ [CHR 0x0A] @
     ''        Enter output format (xml/json/grepable/normal): xml'' @ [CHR 0x0A] @
     [CHR 0x0A] @
     ''    Dependencies:'' @ [CHR 0x0A] @
     ''    - Python modules: os, time, subprocess, ipaddress, datetime, nmap, tqdm'' @ [CHR 0x0A] @
     ''    - Ensure Nmap is installed on your system.'' @ [CHR 0x0A] @
     [CHR 0x0A] @
     ''    To exit, use Ctrl+C.'' @ [CHR 0x0A] @
     ''    ''"

definition getHelp :: "world \<Rightarrow> world" where
  "getHelp w = py_print help_text w"

subsection \<open>\<open>validate_cidr\<close>\<close>

definition msg_invalid_cidr :: string where
  "msg_invalid_cidr =
     ''Invalid CIDR format. Please use the correct format like 192.168.1.0/24.''"

definition validate_cidr :: "string \<Rightarrow> world \<Rightarrow> bool \<times> world" where
  "validate_cidr cidr w =
     (case IPv4Network cidr of
        Inr net \<Rightarrow> (True, w)
      | Inl e \<Rightarrow> (False, py_print msg_invalid_cidr w))"

subsection \<open>\<open>get_user_input\<close>\<close>

text \<open>
  The loop \<open>while True\<close> ends only by \<open>return\<close> or by the EOFError of \<open>input\<close>. On an
  input that never holds a valid range and never ends it runs forever: the value \<open>None\<close>.
\<close>

definition prompt_cidr :: string where
  "prompt_cidr = ''Please enter the CIDR range (e.g., 192.168.1.0/24): ''"

partial_function (option) get_user_input :: "world \<Rightarrow> ((py_error + string) \<times> world) option" where
  "get_user_input w =
     (case py_input prompt_cidr w of
        (Inl e, w1) \<Rightarrow> Some (Inl e, w1)
      | (Inr line, w1) \<Rightarrow>
          (let cidr_input = strip line
           in case validate_cidr cidr_input w1 of
                (ok, w2) \<Rightarrow> if ok then Some (Inr cidr_input, w2) else get_user_input w2))"

declare get_user_input.simps [code]

subsection \<open>\<open>generate_unique_filename\<close>\<close>

definition generate_unique_filename :: "string \<Rightarrow> string \<Rightarrow> world \<Rightarrow> string" where
  "generate_unique_filename output_format target_cidr w =
     (let timestamp = strftime (clock w);
          safe_target = replace_from ''.'' ''_'' (replace_from ''/'' ''_'' target_cidr)
      in ''nmap_scan_'' @ safe_target @ ''_'' @ timestamp @ ''.'' @ output_format)"

subsection \<open>\<open>scan_network\<close>\<close>

text \<open>The three nested loops that print the hosts, protocols and ports of the library's scan.\<close>

definition print_port :: "int \<times> string \<Rightarrow> world \<Rightarrow> world" where
  "print_port ps w = py_print (''Port: '' @ str_int (fst ps) @ '', State: '' @ snd ps) w"

definition print_protocol :: "string \<times> (int \<times> string) list \<Rightarrow> world \<Rightarrow> world" where
  "print_protocol pr w = fold print_port (snd pr) (py_print (''Protocol: '' @ fst pr) w)"

definition print_host :: "host_report \<Rightarrow> world \<Rightarrow> world" where
  "print_host h w =
     fold print_protocol (hr_protocols h)
       (py_print (''State: '' @ hr_state h) (py_print (''Host: '' @ hr_host h) w))"

definition valid_formats :: "string list" where
  "valid_formats = [''xml'', ''json'', ''grepable'', ''normal'']"

definition output_flags :: "string \<Rightarrow> string option" where
  "output_flags =
     map_of [(''xml'', ''-oX''), (''json'', ''-oJ''), (''grepable'', ''-oG''), (''normal'', ''-oN'')]"

definition msg_invalid_format :: string where
  "msg_invalid_format = ''Invalid output format specified. Using default 'xml'.''"

definition msg_overwrite :: "string \<Rightarrow> string" where
  "msg_overwrite output_filename =
     ''Output file '' @ output_filename @ '' already exists, overwriting.''"

definition msg_complete :: "string \<Rightarrow> string" where
  "msg_complete output_filename = ''Scan complete. Results saved to '' @ output_filename"

definition tqdm_new :: "int \<Rightarrow> tqdm" where
  "tqdm_new total_count = \<lparr>tqdm_n = 0, tqdm_total = total_count\<rparr>"

definition tqdm_update :: "int \<Rightarrow> tqdm \<Rightarrow> tqdm" where
  "tqdm_update k b = b\<lparr>tqdm_n := tqdm_n b + k\<rparr>"

text \<open>
  The loop over the lines of the process: the bar after the last line read, and the
  exception that ended the loop, if one did.
\<close>

fun process_lines :: "tqdm \<Rightarrow> string list \<Rightarrow> tqdm \<times> py_error option" where
  "process_lines b [] = (b, None)"
| "process_lines b (raw # rest) =
     (case decode_utf8 raw of
        None \<Rightarrow> (b, Some UnicodeDecodeError)
      | Some line \<Rightarrow>
          process_lines (if str_contains ''Ports scanned'' line then tqdm_update 10 b else b) rest)"

definition scan_network :: "string \<Rightarrow> string \<Rightarrow> string \<Rightarrow> world \<Rightarrow> (py_error + unit) \<times> world" where
  "scan_network target options output_format w =
     (let w0 = emit (PortScan target options) w
      in case port_scanner w target options of
           None \<Rightarrow> (Inl PortScannerError, w0)
         | Some hosts \<Rightarrow>
             (let w1 = fold print_host hosts w0;
                  invalid = (output_format \<notin> set valid_formats);
                  w2 = (if invalid then py_print msg_invalid_format w1 else w1);
                  output_format' = (if invalid then ''xml'' else output_format);
                  output_filename = generate_unique_filename output_format' target w2;
                  w3 = (if path_exists w2 output_filename
                        then py_print (msg_overwrite output_filename) w2
                        else w2)
              in case output_flags output_format' of
                   None \<Rightarrow> (Inl KeyError, w3)
                 | Some output_flag \<Rightarrow>
                     (let total_ports = 1000;
                          w4 = w3\<lparr>pbar := tqdm_new total_ports\<rparr>;
                          command = ''nmap '' @ output_flag @ '' '' @ output_filename @ '' '' @
                                    options @ '' '' @ target;
                          w5 = emit (Popen command) w4;
                          (b, err) = process_lines (pbar w5) (popen_stdout w5 command);
                          w6 = w5\<lparr>pbar := b\<rparr>
                      in case err of
                           Some e \<Rightarrow> (Inl e, w6)
                         | None \<Rightarrow> (Inr (), py_print (msg_complete output_filename) w6))))"

subsection \<open>\<open>main\<close>\<close>

definition prompt_help :: string where
  "prompt_help = ''Need help? (yes/no): ''"

definition prompt_format :: string where
  "prompt_format = ''Enter output format (xml/json/grepable/normal): ''"

definition main :: "world \<Rightarrow> ((py_error + unit) \<times> world) option" where
  "main w =
     (case py_input prompt_help w of
        (Inl e, w0) \<Rightarrow> Some (Inl e, w0)
      | (Inr answer, w0) \<Rightarrow>
          if lower (strip answer) = ''yes'' then Some (Inr (), getHelp w0)
          else
            (case get_user_input w0 of
               None \<Rightarrow> None
             | Some (Inl e, w1) \<Rightarrow> Some (Inl e, w1)
             | Some (Inr target_cidr, w1) \<Rightarrow>
                 (let options = ''-sS -sV -O -A -p 1-1000''
                  in case py_input prompt_format w1 of
                       (Inl e, w2) \<Rightarrow> Some (Inl e, w2)
                     | (Inr fmt, w2) \<Rightarrow>
                         Some (scan_network target_cidr options (lower (strip fmt)) w2))))"

section \<open>Observations on a run\<close>

text \<open>
  The events a call added to the trace, and the command lines handed to the shell among
  them.
\<close>

definition new_events :: "world \<Rightarrow> world \<Rightarrow> event list" where
  "new_events w w' = drop (length (trace w)) (trace w')"

fun popen_commands :: "event list \<Rightarrow> string list" where
  "popen_commands [] = []"
| "popen_commands (Popen c # es) = c # popen_commands es"
| "popen_commands (e # es) = popen_commands es"

text \<open>The lines of the report of the library's scan, as the three loops print them.\<close>

definition port_line :: "int \<times> string \<Rightarrow> string" where
  "port_line ps = ''Port: '' @ str_int (fst ps) @ '', State: '' @ snd ps"

definition protocol_lines :: "string \<times> (int \<times> string) list \<Rightarrow> string list" where
  "protocol_lines pr = (''Protocol: '' @ fst pr) # map port_line (snd pr)"

definition host_lines :: "host_report \<Rightarrow> string list" where
  "host_lines h =
     [''Host: '' @ hr_host h, ''State: '' @ hr_state h] @
     concat (map protocol_lines (hr_protocols h))"

definition report_lines :: "host_report list \<Rightarrow> string list" where
  "report_lines hosts = concat (map host_lines hosts)"

text \<open>The format after the substitution step of \<open>scan_network\<close>.\<close>

definition effective_format :: "string \<Rightarrow> string" where
  "effective_format output_format =
     (if output_format \<in> set valid_formats then output_format else ''xml'')"

text \<open>
  What \<open>validate_cidr\<close> answers on a string, the test that the \<open>i\<close>-th line still waiting
  on the input is one \<open>get_user_input\<close> rejects, and the environment after \<open>k\<close> rejected
  lines: \<open>k\<close> prompts, each followed by the error message.
\<close>

definition cidr_accepted :: "string \<Rightarrow> bool" where
  "cidr_accepted cidr = (case IPv4Network cidr of Inr net \<Rightarrow> True | Inl e \<Rightarrow> False)"

definition rejected_at :: "world \<Rightarrow> nat \<Rightarrow> bool" where
  "rejected_at w i =
     (case stdin w (stdin_pos w + i) of
        None \<Rightarrow> False
      | Some line \<Rightarrow> \<not> cidr_accepted (strip line))"

definition after_reprompts :: "nat \<Rightarrow> world \<Rightarrow> world" where
  "after_reprompts k w =
     w\<lparr>stdin_pos := stdin_pos w + k,
       trace := trace w @ concat (replicate k [Prompt prompt_cidr, Print msg_invalid_cidr])\<rparr>"

text \<open>
  The canonical text of an address with a prefix length: four decimal numbers joined by
  dots, a slash and a decimal number, each as \<open>str\<close> prints it (no sign, no leading zero).
  The address as one number of 32 bits.
\<close>

definition dotted_quad :: "nat \<Rightarrow> nat \<Rightarrow> nat \<Rightarrow> nat \<Rightarrow> string" where
  "dotted_quad a b c d = str_nat a @ ''.'' @ str_nat b @ ''.'' @ str_nat c @ ''.'' @ str_nat d"

definition cidr_string :: "nat \<Rightarrow> nat \<Rightarrow> nat \<Rightarrow> nat \<Rightarrow> nat \<Rightarrow> string" where
  "cidr_string a b c d p = dotted_quad a b c d @ ''/'' @ str_nat p"

definition address_int :: "nat \<Rightarrow> nat \<Rightarrow> nat \<Rightarrow> nat \<Rightarrow> nat" where
  "address_int a b c d = a * 2 ^ 24 + b * 2 ^ 16 + c * 2 ^ 8 + d"

text \<open>
  The hosts the script itself goes through: the names on the \<open>Host:\<close> lines it prints, and
  the targets it hands to the library's scan.
\<close>

fun printed_hosts :: "event list \<Rightarrow> string list" where
  "printed_hosts [] = []"
| "printed_hosts (Print s # es) =
     (if startswith s ''Host: '' then drop 6 s # printed_hosts es else printed_hosts es)"
| "printed_hosts (e # es) = printed_hosts es"

fun scan_targets :: "event list \<Rightarrow> string list" where
  "scan_targets [] = []"
| "scan_targets (PortScan t opts # es) = t # scan_targets es"
| "scan_targets (e # es) = scan_targets es"

text \<open>A line of the scanner's output that advances the progress bar.\<close>

definition progress_line :: "string \<Rightarrow> bool" where
  "progress_line line = str_contains ''Ports scanned'' line"

text \<open>
  A clock reading with a year of four digits, as \<open>datetime.now()\<close> gives today, and the
  shape \<open>YYYYMMDD_HHMMSS\<close> of a time stamp: eight digits, an underscore, six digits.
\<close>

definition calendar_datetime :: "datetime \<Rightarrow> bool" where
  "calendar_datetime d =
     (1000 \<le> dt_year d \<and> dt_year d \<le> 9999 \<and> 1 \<le> dt_month d \<and> dt_month d \<le> 12 \<and>
      1 \<le> dt_day d \<and> dt_day d \<le> 31 \<and> dt_hour d < 24 \<and> dt_minute d < 60 \<and> dt_second d < 60)"

definition timestamp_form :: "string \<Rightarrow> bool" where
  "timestamp_form ts =
     (length ts = 15 \<and> list_all is_digit (take 8 ts) \<and> ts ! 8 = CHR ''_'' \<and>
      list_all is_digit (drop 9 ts))"

text \<open>
  A concrete environment for the examples: the user declines the help, enters a range
  with host bits set, then a valid one between spaces, then an unknown format.
\<close>

definition demo_world :: world where
  "demo_world =
     \<lparr>stdin = (\<lambda>i. if i = 0 then Some ''no'' else if i = 1 then Some ''10.0.0.1/8''
                   else if i = 2 then Some '' 10.0.0.0/8 '' else if i = 3 then Some ''YAML''
                   else None),
      stdin_pos = 0,
      trace = [],
      clock = \<lparr>dt_year = 2024, dt_month = 3, dt_day = 9, dt_hour = 7, dt_minute = 5,
                dt_second = 0\<rparr>,
      path_exists = (\<lambda>p. False),
      port_scanner = (\<lambda>t opts. Some [\<lparr>hr_host = ''10.0.0.1'', hr_state = ''up'',
                                         hr_protocols = [(''tcp'', [(22, ''open'')])]\<rparr>]),
      popen_stdout = (\<lambda>c. [''Starting Nmap'', ''100 Ports scanned'', ''Nmap done'']),
      pbar = \<lparr>tqdm_n = 0, tqdm_total = 0\<rparr>\<rparr>"

text \<open>An environment in which the library reports a single host for every target.\<close>

definition lone_host_world :: world where
  "lone_host_world =
     demo_world\<lparr>port_scanner :=
       (\<lambda>t opts. Some [\<lparr>hr_host = ''192.168.1.1'', hr_state = ''up'', hr_protocols = []\<rparr>])\<rparr>"

section \<open>Strings, digits and time stamps\<close>

lemma replace_char: "replace_from [a] [b] s = map (\<lambda>c. if c = a then b else c) s"
proof (induction s)
  case Nil
  show ?case by (subst replace_from.simps) simp
next
  case (Cons c s)
  show ?case by (subst replace_from.simps) (simp add: Cons)
qed

lemma map_replace_twice:
  "map (\<lambda>c. if c = CHR ''.'' then CHR ''_'' else c) (map (\<lambda>c. if c = CHR ''/'' then CHR ''_'' else c) s) =
   map (\<lambda>c. if c = CHR ''/'' \<or> c = CHR ''.'' then CHR ''_'' else c) s"
  by (induction s) simp_all

lemma str_nat_1: "n < 10 \<Longrightarrow> str_nat n = [digit_char n]"
  by (simp add: str_nat.simps)

lemma str_nat_step: "10 \<le> n \<Longrightarrow> str_nat n = str_nat (n div 10) @ [digit_char (n mod 10)]"
  by (subst str_nat.simps) simp

lemma str_nat_2:
  assumes "10 \<le> n" "n < 100"
  shows "str_nat n = [digit_char (n div 10), digit_char (n mod 10)]"
proof -
  have "n div 10 < 10" using assms by arith
  then show ?thesis using assms by (simp add: str_nat_step str_nat_1)
qed

lemma str_nat_3:
  assumes "100 \<le> n" "n < 1000"
  shows "str_nat n = [digit_char (n div 100), digit_char (n div 10 mod 10), digit_char (n mod 10)]"
proof -
  have "10 \<le> n div 10" "n div 10 < 100" "10 \<le> n"
    using assms by arith+
  moreover have "n div 10 div 10 = n div 100"
    by (simp add: div_mult2_eq [symmetric])
  ultimately show ?thesis by (simp add: str_nat_step [of n] str_nat_2)
qed

lemma str_nat_4:
  assumes "1000 \<le> n" "n < 10000"
  shows "str_nat n = [digit_char (n div 1000), digit_char (n div 100 mod 10),
                      digit_char (n div 10 mod 10), digit_char (n mod 10)]"
proof -
  have "100 \<le> n div 10" "n div 10 < 1000" "10 \<le> n"
    using assms by arith+
  moreover have "n div 10 div 100 = n div 1000" "n div 10 div 10 = n div 100"
    by (simp_all add: div_mult2_eq [symmetric])
  ultimately show ?thesis by (simp add: str_nat_step [of n] str_nat_3)
qed

lemma zfill_2:
  assumes "n < 100"
  shows "zfill 2 (str_nat n) = [digit_char (n div 10), digit_char (n mod 10)]"
proof (cases "n < 10")
  case True
  then show ?thesis by (simp add: zfill_def str_nat_1 digit_char_def)
next
  case False
  then show ?thesis using assms by (simp add: zfill_def str_nat_2)
qed

lemma is_digit_digit_char: "k < 10 \<Longrightarrow> is_digit (digit_char k)"
proof -
  assume "k < 10"
  then have "k \<in> {0, 1, 2, 3, 4, 5, 6, 7, 8, 9}" by auto
  then show ?thesis by (auto simp: is_digit_def digit_char_def)
qed

lemma strftime_digits:
  assumes "calendar_datetime d"
  shows "strftime d =
     [digit_char (dt_year d div 1000), digit_char (dt_year d div 100 mod 10),
      digit_char (dt_year d div 10 mod 10), digit_char (dt_year d mod 10),
      digit_char (dt_month d div 10), digit_char (dt_month d mod 10),
      digit_char (dt_day d div 10), digit_char (dt_day d mod 10),
      CHR ''_'',
      digit_char (dt_hour d div 10), digit_char (dt_hour d mod 10),
      digit_char (dt_minute d div 10), digit_char (dt_minute d mod 10),
      digit_char (dt_second d div 10), digit_char (dt_second d mod 10)]"
  using assms
  by (simp add: strftime_def calendar_datetime_def str_nat_4 zfill_2)

lemma timestamp_form_strftime:
  assumes "calendar_datetime d"
  shows "timestamp_form (strftime d)"
proof -
  have "dt_year d div 1000 < 10" "dt_month d div 10 < 10" "dt_day d div 10 < 10"
    "dt_hour d div 10 < 10" "dt_minute d div 10 < 10" "dt_second d div 10 < 10"
    using assms unfolding calendar_datetime_def by arith+
  then show ?thesis
    unfolding strftime_digits [OF assms] timestamp_form_def
    by (simp add: is_digit_digit_char)
qed

lemma generate_unique_filename_eq:
  "generate_unique_filename output_format target_cidr w =
     ''nmap_scan_'' @
     map (\<lambda>c. if c = CHR ''/'' \<or> c = CHR ''.'' then CHR ''_'' else c) target_cidr @
     ''_'' @ strftime (clock w) @ ''.'' @ output_format"
  unfolding generate_unique_filename_def Let_def replace_char map_replace_twice
  by simp

subsection \<open>White space\<close>

text \<open>
  What \<open>strip\<close> returns neither begins nor ends with a white-space character, so stripping
  it again changes nothing. Each of the white-space characters of Python is removed from
  both ends, and white space inside the text stays.
\<close>

lemma find_SomeD: "find P xs = Some x \<Longrightarrow> x \<in> set xs \<and> P x"
  by (induction xs) (auto split: if_splits)

lemma whitespace_nonempty: "p \<in> set whitespace \<Longrightarrow> length p \<noteq> 0"
  by (auto simp: whitespace_def)

lemma space_prefix_pos:
  "space_prefix s \<noteq> 0 \<longleftrightarrow> (\<exists>p\<in>set whitespace. startswith s p)"
proof (cases "find (startswith s) whitespace")
  case None
  then have "\<not> (\<exists>p\<in>set whitespace. startswith s p)"
    by (simp add: find_None_iff)
  with None show ?thesis
    by (simp add: space_prefix_def)
next
  case (Some p)
  from find_SomeD [OF Some] whitespace_nonempty [of p] Some show ?thesis
    by (auto simp: space_prefix_def)
qed

lemma lstrip_no_space: "space_prefix (lstrip s) = 0"
  by (induction s rule: lstrip.induct) (subst lstrip.simps, simp)

lemma rstrip_no_space: "space_suffix (rstrip s) = 0"
  by (induction s rule: rstrip.induct) (subst rstrip.simps, simp)

lemma startswith_take: "startswith (take n s) p \<Longrightarrow> startswith s p"
proof (induction s p arbitrary: n rule: startswith.induct)
  case (1 s)
  then show ?case by simp
next
  case (2 a p)
  then show ?case by simp
next
  case (3 c s a p)
  then show ?case by (cases n) auto
qed

lemma space_prefix_take: "space_prefix s = 0 \<Longrightarrow> space_prefix (take n s) = 0"
proof (rule ccontr)
  assume z: "space_prefix s = 0" and nz: "space_prefix (take n s) \<noteq> 0"
  from nz obtain p where "p \<in> set whitespace" "startswith (take n s) p"
    unfolding space_prefix_pos by blast
  then have "\<exists>p\<in>set whitespace. startswith s p"
    using startswith_take by blast
  then have "space_prefix s \<noteq> 0"
    unfolding space_prefix_pos .
  with z show False by simp
qed

lemma rstrip_keeps_prefix: "space_prefix s = 0 \<Longrightarrow> space_prefix (rstrip s) = 0"
proof (induction s rule: rstrip.induct)
  case (1 s)
  show ?case
  proof (cases "space_suffix s = 0")
    case True
    then show ?thesis using 1 by (subst rstrip.simps) simp
  next
    case False
    then show ?thesis
      using 1 by (subst rstrip.simps) (simp add: space_prefix_take)
  qed
qed

lemma strip_no_space: "space_prefix (strip s) = 0 \<and> space_suffix (strip s) = 0"
  by (simp add: strip_def rstrip_no_space rstrip_keeps_prefix lstrip_no_space)

lemma strip_idem: "strip (strip s) = strip s"
proof -
  have "lstrip (strip s) = strip s"
    using strip_no_space [of s] by (subst lstrip.simps) simp
  moreover have "rstrip (strip s) = strip s"
    using strip_no_space [of s] by (subst rstrip.simps) simp
  ultimately show ?thesis
    by (simp add: strip_def)
qed

lemma strip_each_whitespace:
  "list_all (\<lambda>p. strip (p @ ''x y'' @ p) = ''x y'') whitespace"
  by code_simp

text \<open>
  A no-break space U+00A0 around a CIDR text, an em space U+2003 and a next-line character
  U+0085 around an answer; the two bytes of U+00C5 are no white space.
\<close>

lemma strip_unicode:
  "strip ([CHR 0xC2, CHR 0xA0] @ ''10.0.0.0/8'' @ [CHR 0xC2, CHR 0xA0]) = ''10.0.0.0/8''"
  "lower (strip ([CHR 0xE2, CHR 0x80, CHR 0x83] @ ''YES'' @ [CHR 0xC2, CHR 0x85])) = ''yes''"
  "strip [CHR 0xC3, CHR 0x85] = [CHR 0xC3, CHR 0x85]"
  "strip [] = []"
  by code_simp+

section \<open>Properties of \<open>scan_network\<close>\<close>

subsection \<open>What a call leaves behind\<close>

lemma emit_fields [simp]:
  "trace (emit e w) = trace w @ [e]"
  "stdin (emit e w) = stdin w"
  "stdin_pos (emit e w) = stdin_pos w"
  "clock (emit e w) = clock w"
  "path_exists (emit e w) = path_exists w"
  "port_scanner (emit e w) = port_scanner w"
  "popen_stdout (emit e w) = popen_stdout w"
  "pbar (emit e w) = pbar w"
  by (simp_all add: emit_def)

lemma py_print_fields [simp]:
  "trace (py_print s w) = trace w @ [Print s]"
  "stdin (py_print s w) = stdin w"
  "stdin_pos (py_print s w) = stdin_pos w"
  "clock (py_print s w) = clock w"
  "path_exists (py_print s w) = path_exists w"
  "port_scanner (py_print s w) = port_scanner w"
  "popen_stdout (py_print s w) = popen_stdout w"
  "pbar (py_print s w) = pbar w"
  by (simp_all add: py_print_def)

lemma fold_print_port:
  "fold print_port ps w = w\<lparr>trace := trace w @ map Print (map port_line ps)\<rparr>"
  by (induction ps arbitrary: w) (simp_all add: print_port_def port_line_def py_print_def emit_def)

lemma print_protocol_eq:
  "print_protocol pr w = w\<lparr>trace := trace w @ map Print (protocol_lines pr)\<rparr>"
  by (simp add: print_protocol_def protocol_lines_def fold_print_port py_print_def emit_def)

lemma fold_print_protocol:
  "fold print_protocol prs w =
     w\<lparr>trace := trace w @ map Print (concat (map protocol_lines prs))\<rparr>"
  by (induction prs arbitrary: w) (simp_all add: print_protocol_eq)

lemma print_host_eq:
  "print_host h w = w\<lparr>trace := trace w @ map Print (host_lines h)\<rparr>"
  by (simp add: print_host_def host_lines_def fold_print_protocol py_print_def emit_def)

lemma fold_print_host:
  "fold print_host hosts w = w\<lparr>trace := trace w @ map Print (report_lines hosts)\<rparr>"
  by (induction hosts arbitrary: w) (simp_all add: print_host_eq report_lines_def)

lemma generate_unique_filename_frame [simp]:
  "generate_unique_filename f t (emit e w) = generate_unique_filename f t w"
  "generate_unique_filename f t (py_print s w) = generate_unique_filename f t w"
  "generate_unique_filename f t (w\<lparr>trace := tr\<rparr>) = generate_unique_filename f t w"
  "generate_unique_filename f t (w\<lparr>pbar := b\<rparr>) = generate_unique_filename f t w"
  by (simp_all add: generate_unique_filename_def)

lemma valid_formats_set: "set valid_formats = {''xml'', ''json'', ''grepable'', ''normal''}"
  by (auto simp: valid_formats_def)

lemma output_flags_cases:
  "output_flags f =
     (if f = ''xml'' then Some ''-oX'' else if f = ''json'' then Some ''-oJ''
      else if f = ''grepable'' then Some ''-oG'' else if f = ''normal'' then Some ''-oN''
      else None)"
  by (simp add: output_flags_def)

lemma process_lines_error:
  "snd (process_lines b ls) = None \<or> snd (process_lines b ls) = Some UnicodeDecodeError"
  by (induction ls arbitrary: b) (simp_all split: option.split)

lemma scan_network_no_scanner:
  assumes "port_scanner w target options = None"
  shows "scan_network target options output_format w =
     (Inl PortScannerError, emit (PortScan target options) w)"
  using assms by (simp add: scan_network_def)

text \<open>
  The result and the final environment of a call whose library scan succeeded, with the
  four combinations of a known or unknown format and an existing or new file.
\<close>

lemma scan_network_unfold:
  assumes "port_scanner w target options = Some hosts"
    and "output_flags (effective_format output_format) = Some flag"
    and "fname = generate_unique_filename (effective_format output_format) target w"
    and "command = ''nmap '' @ flag @ '' '' @ fname @ '' '' @ options @ '' '' @ target"
    and "r = process_lines (tqdm_new 1000) (popen_stdout w command)"
  shows "scan_network target options output_format w =
     ((case snd r of Some e \<Rightarrow> Inl e | None \<Rightarrow> Inr ()),
      w\<lparr>trace := trace w @ [PortScan target options] @ map Print (report_lines hosts) @
            (if output_format \<in> set valid_formats then [] else [Print msg_invalid_format]) @
            (if path_exists w fname then [Print (msg_overwrite fname)] else []) @
            [Popen command] @
            (case snd r of Some e \<Rightarrow> [] | None \<Rightarrow> [Print (msg_complete fname)]),
         pbar := fst r\<rparr>)"
proof -
  have eff: "effective_format output_format =
      (if output_format \<in> set valid_formats then output_format else ''xml'')"
    by (simp add: effective_format_def)
  show ?thesis
  proof (cases "output_format \<in> set valid_formats")
    case valid: True
    show ?thesis
    proof (cases "path_exists w fname")
      case True
      with valid assms show ?thesis
        unfolding scan_network_def eff
        by (simp add: Let_def fold_print_host split_beta emit_def py_print_def split: option.split)
    next
      case False
      with valid assms show ?thesis
        unfolding scan_network_def eff
        by (simp add: Let_def fold_print_host split_beta emit_def py_print_def split: option.split)
    qed
  next
    case invalid: False
    show ?thesis
    proof (cases "path_exists w fname")
      case True
      with invalid assms show ?thesis
        unfolding scan_network_def eff
        by (simp add: Let_def fold_print_host split_beta emit_def py_print_def split: option.split)
    next
      case False
      with invalid assms show ?thesis
        unfolding scan_network_def eff
        by (simp add: Let_def fold_print_host split_beta emit_def py_print_def split: option.split)
    qed
  qed
qed

lemma popen_commands_append:
  "popen_commands (xs @ ys) = popen_commands xs @ popen_commands ys"
  by (induction xs rule: popen_commands.induct) simp_all

lemma popen_commands_prints: "popen_commands (map Print ls) = []"
  by (induction ls) simp_all

lemma scan_network_popen:
  assumes "port_scanner w target options = Some hosts"
    and "output_flags (effective_format output_format) = Some flag"
  shows "popen_commands (new_events w (snd (scan_network target options output_format w))) =
     [''nmap '' @ flag @ '' '' @
      generate_unique_filename (effective_format output_format) target w @ '' '' @
      options @ '' '' @ target]"
  by (simp add: scan_network_unfold [OF assms refl refl refl] new_events_def
      popen_commands_append popen_commands_prints split: option.split)

lemma demo_timestamp: "strftime (clock demo_world) = ''20240309_070500''"
proof -
  have "calendar_datetime (clock demo_world)"
    by (simp add: calendar_datetime_def demo_world_def)
  then show ?thesis
    by (simp add: strftime_digits) (simp add: demo_world_def digit_char_def)
qed

lemma demo_filename:
  "generate_unique_filename ''xml'' ''10.0.0.0/8'' demo_world =
     ''nmap_scan_10_0_0_0_8_20240309_070500.xml''"
  by (simp add: generate_unique_filename_eq demo_timestamp)

lemma effective_format_flag:
  "output_flags (effective_format output_format) =
     Some (if output_format = ''json'' then ''-oJ'' else if output_format = ''grepable'' then ''-oG''
           else if output_format = ''normal'' then ''-oN'' else ''-oX'')"
proof (cases "output_format \<in> set valid_formats")
  case True
  then have "output_format = ''xml'' \<or> output_format = ''json'' \<or> output_format = ''grepable'' \<or>
      output_format = ''normal''"
    by (simp add: valid_formats_def)
  moreover have "effective_format output_format = output_format"
    using True by (simp add: effective_format_def)
  ultimately show ?thesis
    by (elim disjE) (simp_all add: output_flags_def)
next
  case False
  then have ne: "output_format \<noteq> ''xml''" "output_format \<noteq> ''json''" "output_format \<noteq> ''grepable''"
      "output_format \<noteq> ''normal''"
    by (auto simp: valid_formats_def)
  have "effective_format output_format = ''xml''"
    using False by (simp add: effective_format_def)
  then show ?thesis
    using ne by (simp add: output_flags_def)
qed

subsection \<open>The lookup of the output flag\<close>

text \<open>
  Claim C10. Whatever the format string passed in, the format after the substitution step
  is one of the four keys of \<open>output_flags\<close>: the lookup finds one of the flags
  \<open>-oX\<close>, \<open>-oJ\<close>, \<open>-oG\<close>, \<open>-oN\<close>, \<open>scan_network\<close> never ends in a KeyError, and the
  file name in the command it runs is generated for one of the four recognised formats.
\<close>

theorem scan_network_flag_lookup_total:
  "fst (scan_network target options output_format w) \<noteq> Inl KeyError \<and>
   (\<exists>f \<in> set valid_formats. \<exists>flag \<in> {''-oX'', ''-oJ'', ''-oG'', ''-oN''}.
      f = (if output_format \<in> set valid_formats then output_format else ''xml'') \<and>
      output_flags f = Some flag \<and>
      (port_scanner w target options \<noteq> None \<longrightarrow>
         popen_commands (new_events w (snd (scan_network target options output_format w))) =
           [''nmap '' @ flag @ '' '' @ generate_unique_filename f target w @ '' '' @
            options @ '' '' @ target]))"
proof -
  define f where "f = effective_format output_format"
  have f_valid: "f \<in> set valid_formats"
    by (simp add: f_def effective_format_def valid_formats_def)
  then obtain flag where flag: "output_flags f = Some flag"
    and flag_in: "flag \<in> {''-oX'', ''-oJ'', ''-oG'', ''-oN''}"
    by (auto simp: valid_formats_set output_flags_cases)
  have no_key: "fst (scan_network target options output_format w) \<noteq> Inl KeyError"
  proof (cases "port_scanner w target options")
    case None
    then show ?thesis by (simp add: scan_network_no_scanner)
  next
    case (Some hosts)
    obtain b err where r: "process_lines (tqdm_new 1000) (popen_stdout w
        (''nmap '' @ flag @ '' '' @ generate_unique_filename f target w @ '' '' @
         options @ '' '' @ target)) = (b, err)"
      by fastforce
    have "err = None \<or> err = Some UnicodeDecodeError"
      using process_lines_error [of "tqdm_new 1000"] r by (metis snd_conv)
    then show ?thesis
      using scan_network_unfold [OF Some flag [unfolded f_def] refl refl refl] r
      by (auto simp: f_def)
  qed
  have cmd: "port_scanner w target options \<noteq> None \<longrightarrow>
         popen_commands (new_events w (snd (scan_network target options output_format w))) =
           [''nmap '' @ flag @ '' '' @ generate_unique_filename f target w @ '' '' @
            options @ '' '' @ target]"
    using scan_network_popen [OF _ flag [unfolded f_def]] by (auto simp: f_def)
  show ?thesis
    using no_key f_valid flag flag_in cmd
    unfolding f_def effective_format_def by blast
qed

theorem scan_network_flag_lookup_total_witness:
  "fst (scan_network ''10.0.0.0/8'' ''-sS'' ''yaml'' demo_world) \<noteq> Inl KeyError \<and>
   output_flags ''xml'' = Some ''-oX'' \<and>
   popen_commands
     (new_events demo_world (snd (scan_network ''10.0.0.0/8'' ''-sS'' ''yaml'' demo_world))) =
     [''nmap -oX nmap_scan_10_0_0_0_8_20240309_070500.xml -sS 10.0.0.0/8'']"
proof -
  have scanner: "port_scanner demo_world ''10.0.0.0/8'' ''-sS'' \<noteq> None"
    by (simp add: demo_world_def)
  have invalid: "''yaml'' \<notin> set valid_formats"
    by (simp add: valid_formats_def)
  show ?thesis
    using scan_network_flag_lookup_total [of "''10.0.0.0/8''" "''-sS''" "''yaml''" demo_world]
      scanner invalid
    by (auto simp: output_flags_cases demo_filename)
qed

subsection \<open>The name of the output file\<close>

text \<open>
  Claim C3. For every target and every format string, \<open>generate_unique_filename\<close> returns
  \<open>nmap_scan_\<close>, the target with every slash and every dot replaced by an underscore, an
  underscore, the time stamp, a dot and the format. For a clock reading with a year of four
  digits the time stamp has the form \<open>YYYYMMDD_HHMMSS\<close>, digit by digit as stated. The name
  in the command \<open>scan_network\<close> runs is generated for the format after the substitution
  step, so its extension is that format.
\<close>
theorem generate_unique_filename_shape:
  "generate_unique_filename output_format target_cidr w =
     ''nmap_scan_'' @
     map (\<lambda>c. if c = CHR ''/'' \<or> c = CHR ''.'' then CHR ''_'' else c) target_cidr @
     ''_'' @ strftime (clock w) @ ''.'' @ output_format \<and>
   (calendar_datetime (clock w) \<longrightarrow>
      timestamp_form (strftime (clock w)) \<and>
      strftime (clock w) =
        [digit_char (dt_year (clock w) div 1000), digit_char (dt_year (clock w) div 100 mod 10),
         digit_char (dt_year (clock w) div 10 mod 10), digit_char (dt_year (clock w) mod 10),
         digit_char (dt_month (clock w) div 10), digit_char (dt_month (clock w) mod 10),
         digit_char (dt_day (clock w) div 10), digit_char (dt_day (clock w) mod 10),
         CHR ''_'',
         digit_char (dt_hour (clock w) div 10), digit_char (dt_hour (clock w) mod 10),
         digit_char (dt_minute (clock w) div 10), digit_char (dt_minute (clock w) mod 10),
         digit_char (dt_second (clock w) div 10), digit_char (dt_second (clock w) mod 10)]) \<and>
   (port_scanner w target_cidr options \<noteq> None \<longrightarrow>
      (\<exists>flag. popen_commands
                (new_events w (snd (scan_network target_cidr options output_format w))) =
              [''nmap '' @ flag @ '' '' @
               generate_unique_filename (effective_format output_format) target_cidr w @
               '' '' @ options @ '' '' @ target_cidr]))"
proof (intro conjI impI)
  show "generate_unique_filename output_format target_cidr w =
     ''nmap_scan_'' @
     map (\<lambda>c. if c = CHR ''/'' \<or> c = CHR ''.'' then CHR ''_'' else c) target_cidr @
     ''_'' @ strftime (clock w) @ ''.'' @ output_format"
    by (rule generate_unique_filename_eq)
next
  assume "calendar_datetime (clock w)"
  then show "timestamp_form (strftime (clock w))"
    by (rule timestamp_form_strftime)
next
  assume "calendar_datetime (clock w)"
  then show "strftime (clock w) =
        [digit_char (dt_year (clock w) div 1000), digit_char (dt_year (clock w) div 100 mod 10),
         digit_char (dt_year (clock w) div 10 mod 10), digit_char (dt_year (clock w) mod 10),
         digit_char (dt_month (clock w) div 10), digit_char (dt_month (clock w) mod 10),
         digit_char (dt_day (clock w) div 10), digit_char (dt_day (clock w) mod 10),
         CHR ''_'',
         digit_char (dt_hour (clock w) div 10), digit_char (dt_hour (clock w) mod 10),
         digit_char (dt_minute (clock w) div 10), digit_char (dt_minute (clock w) mod 10),
         digit_char (dt_second (clock w) div 10), digit_char (dt_second (clock w) mod 10)]"
    by (rule strftime_digits)
next
  assume "port_scanner w target_cidr options \<noteq> None"
  then obtain hosts where "port_scanner w target_cidr options = Some hosts"
    by blast
  from scan_network_popen [OF this effective_format_flag]
  show "\<exists>flag. popen_commands
                (new_events w (snd (scan_network target_cidr options output_format w))) =
              [''nmap '' @ flag @ '' '' @
               generate_unique_filename (effective_format output_format) target_cidr w @
               '' '' @ options @ '' '' @ target_cidr]"
    by blast
qed

theorem generate_unique_filename_shape_witness:
  "generate_unique_filename ''xml'' ''10.0.0.0/8'' demo_world =
     ''nmap_scan_10_0_0_0_8_20240309_070500.xml'' \<and>
   calendar_datetime (clock demo_world) \<and>
   timestamp_form ''20240309_070500'' \<and>
   port_scanner demo_world ''10.0.0.0/8'' ''-sS'' \<noteq> None"
proof -
  have cal: "calendar_datetime (clock demo_world)"
    by (simp add: calendar_datetime_def demo_world_def)
  have ts: "strftime (clock demo_world) = ''20240309_070500''"
    by (simp add: strftime_digits [OF cal]) (simp add: demo_world_def digit_char_def)
  have scanner: "port_scanner demo_world ''10.0.0.0/8'' ''-sS'' \<noteq> None"
    by (simp add: demo_world_def)
  note inst = generate_unique_filename_shape [of "''xml''" "''10.0.0.0/8''" demo_world "''-sS''"]
  from inst have name: "generate_unique_filename ''xml'' ''10.0.0.0/8'' demo_world =
      ''nmap_scan_'' @
      map (\<lambda>c. if c = CHR ''/'' \<or> c = CHR ''.'' then CHR ''_'' else c) ''10.0.0.0/8'' @
      ''_'' @ strftime (clock demo_world) @ ''.'' @ ''xml''"
    by (rule conjunct1)
  from inst cal have "timestamp_form (strftime (clock demo_world))"
    by blast
  then have form: "timestamp_form ''20240309_070500''"
    by (simp only: ts)
  have "generate_unique_filename ''xml'' ''10.0.0.0/8'' demo_world =
      ''nmap_scan_10_0_0_0_8_20240309_070500.xml''"
    unfolding name ts by simp
  with cal form scanner show ?thesis
    by (intro conjI)
qed

subsection \<open>The command line\<close>

text \<open>
  Claim C7. When the library's scan has succeeded, \<open>scan_network\<close> hands exactly one command
  to the shell: \<open>nmap\<close>, the flag of the format (\<open>-oJ\<close> for json, \<open>-oG\<close> for grepable,
  \<open>-oN\<close> for normal, \<open>-oX\<close> for xml and for every substituted format), the generated file
  name, the options and the target, separated by single spaces. It is a function of the
  target, the options, the file name and the flag alone.
\<close>
theorem scan_network_command:
  assumes "port_scanner w target options = Some hosts"
  shows "popen_commands (new_events w (snd (scan_network target options output_format w))) =
     [''nmap '' @
      (if output_format = ''json'' then ''-oJ'' else if output_format = ''grepable'' then ''-oG''
       else if output_format = ''normal'' then ''-oN'' else ''-oX'') @ '' '' @
      generate_unique_filename (effective_format output_format) target w @ '' '' @
      options @ '' '' @ target]"
  by (rule scan_network_popen [OF assms effective_format_flag])

theorem scan_network_command_witness:
  "port_scanner demo_world ''10.0.0.0/8'' ''-sS -p 1-1000'' =
     Some [\<lparr>hr_host = ''10.0.0.1'', hr_state = ''up'',
            hr_protocols = [(''tcp'', [(22, ''open'')])]\<rparr>] \<and>
   popen_commands
     (new_events demo_world
        (snd (scan_network ''10.0.0.0/8'' ''-sS -p 1-1000'' ''grepable'' demo_world))) =
     [''nmap -oG nmap_scan_10_0_0_0_8_20240309_070500.grepable -sS -p 1-1000 10.0.0.0/8'']"
proof -
  have scanner: "port_scanner demo_world ''10.0.0.0/8'' ''-sS -p 1-1000'' =
     Some [\<lparr>hr_host = ''10.0.0.1'', hr_state = ''up'',
            hr_protocols = [(''tcp'', [(22, ''open'')])]\<rparr>]"
    by (simp add: demo_world_def)
  have name: "generate_unique_filename (effective_format ''grepable'') ''10.0.0.0/8'' demo_world =
      ''nmap_scan_10_0_0_0_8_20240309_070500.grepable''"
    by (simp add: generate_unique_filename_eq effective_format_def valid_formats_def)
       (simp add: strftime_def zfill_def digit_char_def demo_world_def str_nat.simps)
  show ?thesis
    using scan_network_command [OF scanner, of "''grepable''"] scanner name
    by simp
qed

subsection \<open>The substitution of the format\<close>

lemma report_lines_hd:
  "l \<in> set (report_lines hosts) \<Longrightarrow> hd l \<in> {CHR ''H'', CHR ''S'', CHR ''P''}"
  by (auto simp: report_lines_def host_lines_def protocol_lines_def port_line_def)

lemma msg_invalid_format_not_reported: "msg_invalid_format \<notin> set (report_lines hosts)"
proof
  assume "msg_invalid_format \<in> set (report_lines hosts)"
  from report_lines_hd [OF this] show False
    by (simp add: msg_invalid_format_def)
qed

lemma msg_invalid_format_distinct:
  "msg_overwrite f \<noteq> msg_invalid_format" "msg_complete f \<noteq> msg_invalid_format"
  "msg_invalid_format \<noteq> msg_overwrite f" "msg_invalid_format \<noteq> msg_complete f"
  by (simp_all add: msg_overwrite_def msg_complete_def msg_invalid_format_def)

lemma scan_network_warning:
  assumes "port_scanner w target options = Some hosts"
  shows "Print msg_invalid_format \<in> set (new_events w (snd (scan_network target options output_format w)))
     \<longleftrightarrow> output_format \<notin> set valid_formats"
proof -
  obtain flag where flag: "output_flags (effective_format output_format) = Some flag"
    using effective_format_flag by blast
  have rep: "Print msg_invalid_format \<notin> Print ` set (report_lines hosts)"
    using msg_invalid_format_not_reported [of hosts] by auto
  show ?thesis
    using rep
    by (simp add: scan_network_unfold [OF assms flag refl refl refl] new_events_def
        msg_invalid_format_distinct split: option.split)
qed

text \<open>
  Claim C1. When the library's scan has succeeded: for a format string that is not one of
  \<open>xml\<close>, \<open>json\<close>, \<open>grepable\<close>, \<open>normal\<close>, \<open>scan_network\<close> prints the warning and uses
  \<open>xml\<close> both for the extension of the file name and for the flag (\<open>-oX\<close>); for each of
  the four recognised strings it prints no warning and uses the string unchanged, with the
  flag the table gives for it.
\<close>
theorem scan_network_format_fallback:
  assumes "port_scanner w target options = Some hosts"
  shows "(output_format \<notin> {''xml'', ''json'', ''grepable'', ''normal''} \<longrightarrow>
            Print msg_invalid_format \<in>
              set (new_events w (snd (scan_network target options output_format w))) \<and>
            popen_commands (new_events w (snd (scan_network target options output_format w))) =
              [''nmap -oX '' @ generate_unique_filename ''xml'' target w @ '' '' @
               options @ '' '' @ target] \<and>
            (\<exists>stem. generate_unique_filename ''xml'' target w = stem @ ''.xml'')) \<and>
         (output_format \<in> {''xml'', ''json'', ''grepable'', ''normal''} \<longrightarrow>
            Print msg_invalid_format \<notin>
              set (new_events w (snd (scan_network target options output_format w))) \<and>
            (\<exists>flag stem.
               output_flags output_format = Some flag \<and>
               popen_commands (new_events w (snd (scan_network target options output_format w))) =
                 [''nmap '' @ flag @ '' '' @ generate_unique_filename output_format target w @
                  '' '' @ options @ '' '' @ target] \<and>
               generate_unique_filename output_format target w = stem @ ''.'' @ output_format))"
proof (intro conjI impI)
  assume inv: "output_format \<notin> {''xml'', ''json'', ''grepable'', ''normal''}"
  then have eff: "effective_format output_format = ''xml''"
    by (simp add: effective_format_def valid_formats_set)
  show "Print msg_invalid_format \<in>
      set (new_events w (snd (scan_network target options output_format w)))"
    using inv by (simp add: scan_network_warning [OF assms] valid_formats_set)
  show "popen_commands (new_events w (snd (scan_network target options output_format w))) =
      [''nmap -oX '' @ generate_unique_filename ''xml'' target w @ '' '' @ options @ '' '' @ target]"
    using scan_network_popen [OF assms effective_format_flag, of output_format] inv
    by (simp add: eff)
  show "\<exists>stem. generate_unique_filename ''xml'' target w = stem @ ''.xml''"
    by (simp add: generate_unique_filename_eq)
next
  assume val: "output_format \<in> {''xml'', ''json'', ''grepable'', ''normal''}"
  then have eff: "effective_format output_format = output_format"
    by (simp add: effective_format_def valid_formats_set)
  show "Print msg_invalid_format \<notin>
      set (new_events w (snd (scan_network target options output_format w)))"
    using val by (simp add: scan_network_warning [OF assms] valid_formats_set)
  have "generate_unique_filename output_format target w =
      (''nmap_scan_'' @
       map (\<lambda>c. if c = CHR ''/'' \<or> c = CHR ''.'' then CHR ''_'' else c) target @
       ''_'' @ strftime (clock w)) @ ''.'' @ output_format"
    by (simp add: generate_unique_filename_eq)
  then show "\<exists>flag stem.
       output_flags output_format = Some flag \<and>
       popen_commands (new_events w (snd (scan_network target options output_format w))) =
         [''nmap '' @ flag @ '' '' @ generate_unique_filename output_format target w @
          '' '' @ options @ '' '' @ target] \<and>
       generate_unique_filename output_format target w = stem @ ''.'' @ output_format"
    using scan_network_popen [OF assms effective_format_flag, of output_format]
      effective_format_flag [of output_format]
    unfolding eff by blast
qed

theorem scan_network_format_fallback_witness:
  "port_scanner demo_world ''10.0.0.0/8'' ''-sS'' =
     Some [\<lparr>hr_host = ''10.0.0.1'', hr_state = ''up'',
            hr_protocols = [(''tcp'', [(22, ''open'')])]\<rparr>] \<and>
   ''yaml'' \<notin> {''xml'', ''json'', ''grepable'', ''normal''} \<and>
   Print msg_invalid_format \<in>
     set (new_events demo_world (snd (scan_network ''10.0.0.0/8'' ''-sS'' ''yaml'' demo_world))) \<and>
   popen_commands
     (new_events demo_world (snd (scan_network ''10.0.0.0/8'' ''-sS'' ''yaml'' demo_world))) =
     [''nmap -oX nmap_scan_10_0_0_0_8_20240309_070500.xml -sS 10.0.0.0/8'']"
proof -
  have scanner: "port_scanner demo_world ''10.0.0.0/8'' ''-sS'' =
     Some [\<lparr>hr_host = ''10.0.0.1'', hr_state = ''up'',
            hr_protocols = [(''tcp'', [(22, ''open'')])]\<rparr>]"
    by (simp add: demo_world_def)
  have invalid: "''yaml'' \<notin> {''xml'', ''json'', ''grepable'', ''normal''}"
    by simp
  note inst = scan_network_format_fallback [OF scanner, of "''yaml''"]
  from inst invalid
  have warned: "Print msg_invalid_format \<in>
     set (new_events demo_world (snd (scan_network ''10.0.0.0/8'' ''-sS'' ''yaml'' demo_world)))"
    and cmd: "popen_commands
     (new_events demo_world (snd (scan_network ''10.0.0.0/8'' ''-sS'' ''yaml'' demo_world))) =
     [''nmap -oX '' @ generate_unique_filename ''xml'' ''10.0.0.0/8'' demo_world @ '' '' @
      ''-sS'' @ '' '' @ ''10.0.0.0/8'']"
    by blast+
  from cmd have "popen_commands
     (new_events demo_world (snd (scan_network ''10.0.0.0/8'' ''-sS'' ''yaml'' demo_world))) =
     [''nmap -oX nmap_scan_10_0_0_0_8_20240309_070500.xml -sS 10.0.0.0/8'']"
    by (simp add: demo_filename)
  with scanner invalid warned show ?thesis
    by (intro conjI)
qed

section \<open>The progress bar\<close>

lemma decode_utf8_simps [simp]:
  "utf8_valid raw \<Longrightarrow> decode_utf8 raw = Some raw"
  "\<not> utf8_valid raw \<Longrightarrow> decode_utf8 raw = None"
  by (simp_all add: decode_utf8_def)

lemma process_lines_eq:
  "process_lines b ls =
     (b\<lparr>tqdm_n := tqdm_n b + 10 * int (length (filter progress_line (takeWhile utf8_valid ls)))\<rparr>,
      if list_all utf8_valid ls then None else Some UnicodeDecodeError)"
proof (induction ls arbitrary: b)
  case Nil
  show ?case by simp
next
  case (Cons raw rest)
  show ?case
  proof (cases "utf8_valid raw")
    case False
    then show ?thesis by simp
  next
    case True
    then show ?thesis
      by (simp add: Cons.IH progress_line_def tqdm_update_def)
  qed
qed

lemma takeWhile_append_filter_le:
  "length (filter P (takeWhile Q xs)) \<le> length (filter P (takeWhile Q (xs @ ys)))"
  by (induction xs) simp_all

lemma scan_network_pbar:
  assumes "port_scanner w target options = Some hosts"
    and "output_flags (effective_format output_format) = Some flag"
  shows "pbar (snd (scan_network target options output_format w)) =
       fst (process_lines (tqdm_new 1000) (popen_stdout w
         (''nmap '' @ flag @ '' '' @
          generate_unique_filename (effective_format output_format) target w @ '' '' @
          options @ '' '' @ target))) \<and>
     (fst (scan_network target options output_format w) = Inr () \<longleftrightarrow>
       snd (process_lines (tqdm_new 1000) (popen_stdout w
         (''nmap '' @ flag @ '' '' @
          generate_unique_filename (effective_format output_format) target w @ '' '' @
          options @ '' '' @ target))) = None)"
proof -
  obtain b err where r: "process_lines (tqdm_new 1000) (popen_stdout w
         (''nmap '' @ flag @ '' '' @
          generate_unique_filename (effective_format output_format) target w @ '' '' @
          options @ '' '' @ target)) = (b, err)"
    by fastforce
  show ?thesis
    unfolding scan_network_unfold [OF assms refl refl refl] r
    by (cases err) simp_all
qed

text \<open>
  Claim C5, as amended. The count of the progress bar never decreases while the lines are
  read: it is the count before the loop plus ten for every line read so far that holds
  \<open>Ports scanned\<close>, and its total stays what it was. When the loop ends without an
  exception the count is ten times the number of such lines, so it equals the total 1000
  exactly when there were 100 of them. The bar \<open>scan_network\<close> leaves behind is the one
  this loop returns for the output of the command it ran.
\<close>

theorem progress_count_monotone:
  "tqdm_n b \<le> tqdm_n (fst (process_lines b xs)) \<and>
   tqdm_n (fst (process_lines b xs)) \<le> tqdm_n (fst (process_lines b (xs @ ys))) \<and>
   tqdm_n (fst (process_lines b xs)) =
     tqdm_n b + 10 * int (length (filter progress_line (takeWhile utf8_valid xs))) \<and>
   tqdm_total (fst (process_lines b xs)) = tqdm_total b \<and>
   (snd (process_lines b xs) = None \<longrightarrow>
      tqdm_n (fst (process_lines b xs)) = tqdm_n b + 10 * int (length (filter progress_line xs))) \<and>
   (snd (process_lines (tqdm_new 1000) xs) = None \<longrightarrow>
      (tqdm_n (fst (process_lines (tqdm_new 1000) xs)) =
         tqdm_total (fst (process_lines (tqdm_new 1000) xs))
       \<longleftrightarrow> length (filter progress_line xs) = 100)) \<and>
   (port_scanner w target options \<noteq> None \<longrightarrow>
      (\<exists>command.
         popen_commands (new_events w (snd (scan_network target options output_format w))) =
           [command] \<and>
         pbar (snd (scan_network target options output_format w)) =
           fst (process_lines (tqdm_new 1000) (popen_stdout w command)) \<and>
         (fst (scan_network target options output_format w) = Inr () \<longleftrightarrow>
            snd (process_lines (tqdm_new 1000) (popen_stdout w command)) = None)))"
proof -
  have valid: "snd (process_lines c xs) = None \<Longrightarrow> takeWhile utf8_valid xs = xs" for c
    by (simp add: process_lines_eq list_all_iff split: if_splits)
  show ?thesis
  proof (intro conjI impI)
    show "tqdm_n b \<le> tqdm_n (fst (process_lines b xs))"
      by (simp add: process_lines_eq)
    show "tqdm_n (fst (process_lines b xs)) \<le> tqdm_n (fst (process_lines b (xs @ ys)))"
      using takeWhile_append_filter_le [of progress_line utf8_valid xs ys]
      by (simp add: process_lines_eq)
    show "tqdm_n (fst (process_lines b xs)) =
       tqdm_n b + 10 * int (length (filter progress_line (takeWhile utf8_valid xs)))"
      by (simp add: process_lines_eq)
    show "tqdm_total (fst (process_lines b xs)) = tqdm_total b"
      by (simp add: process_lines_eq)
  next
    assume "snd (process_lines b xs) = None"
    from valid [OF this]
    have "filter progress_line (takeWhile utf8_valid xs) = filter progress_line xs"
      by (rule arg_cong)
    then show "tqdm_n (fst (process_lines b xs)) = tqdm_n b + 10 * int (length (filter progress_line xs))"
      by (simp add: process_lines_eq)
  next
    assume "snd (process_lines (tqdm_new 1000) xs) = None"
    from valid [OF this]
    have "filter progress_line (takeWhile utf8_valid xs) = filter progress_line xs"
      by (rule arg_cong)
    then show "tqdm_n (fst (process_lines (tqdm_new 1000) xs)) =
         tqdm_total (fst (process_lines (tqdm_new 1000) xs))
       \<longleftrightarrow> length (filter progress_line xs) = 100"
      by (simp add: process_lines_eq tqdm_new_def)
  next
    assume "port_scanner w target options \<noteq> None"
    then obtain hosts where hosts: "port_scanner w target options = Some hosts"
      by blast
    show "\<exists>command.
         popen_commands (new_events w (snd (scan_network target options output_format w))) =
           [command] \<and>
         pbar (snd (scan_network target options output_format w)) =
           fst (process_lines (tqdm_new 1000) (popen_stdout w command)) \<and>
         (fst (scan_network target options output_format w) = Inr () \<longleftrightarrow>
            snd (process_lines (tqdm_new 1000) (popen_stdout w command)) = None)"
    proof (intro exI conjI)
      show "popen_commands (new_events w (snd (scan_network target options output_format w))) =
          [''nmap '' @
           (if output_format = ''json'' then ''-oJ'' else if output_format = ''grepable'' then ''-oG''
            else if output_format = ''normal'' then ''-oN'' else ''-oX'') @ '' '' @
           generate_unique_filename (effective_format output_format) target w @ '' '' @
           options @ '' '' @ target]"
        by (rule scan_network_popen [OF hosts effective_format_flag])
      show "pbar (snd (scan_network target options output_format w)) =
          fst (process_lines (tqdm_new 1000) (popen_stdout w
           (''nmap '' @
            (if output_format = ''json'' then ''-oJ'' else if output_format = ''grepable'' then ''-oG''
             else if output_format = ''normal'' then ''-oN'' else ''-oX'') @ '' '' @
            generate_unique_filename (effective_format output_format) target w @ '' '' @
            options @ '' '' @ target)))"
        by (rule scan_network_pbar [OF hosts effective_format_flag, THEN conjunct1])
      show "fst (scan_network target options output_format w) = Inr () \<longleftrightarrow>
          snd (process_lines (tqdm_new 1000) (popen_stdout w
           (''nmap '' @
            (if output_format = ''json'' then ''-oJ'' else if output_format = ''grepable'' then ''-oG''
             else if output_format = ''normal'' then ''-oN'' else ''-oX'') @ '' '' @
            generate_unique_filename (effective_format output_format) target w @ '' '' @
            options @ '' '' @ target))) = None"
        by (rule scan_network_pbar [OF hosts effective_format_flag, THEN conjunct2])
    qed
  qed
qed

lemma demo_lines:
  "process_lines (tqdm_new 1000) [''Starting Nmap'', ''100 Ports scanned'', ''Nmap done''] =
     (\<lparr>tqdm_n = 10, tqdm_total = 1000\<rparr>, None)"
  by code_simp

lemma demo_progress_lines:
  "length (filter progress_line [''Starting Nmap'', ''100 Ports scanned'', ''Nmap done'']) = 1"
  by code_simp

theorem progress_count_monotone_witness:
  "snd (process_lines (tqdm_new 1000) [''Starting Nmap'', ''100 Ports scanned'', ''Nmap done'']) = None \<and>
   tqdm_n (fst (process_lines (tqdm_new 1000)
     [''Starting Nmap'', ''100 Ports scanned'', ''Nmap done''])) = 10 \<and>
   length (filter progress_line [''Starting Nmap'', ''100 Ports scanned'', ''Nmap done'']) = 1 \<and>
   tqdm_n (fst (process_lines (tqdm_new 1000)
     [''Starting Nmap'', ''100 Ports scanned'', ''Nmap done''])) \<noteq>
   tqdm_total (fst (process_lines (tqdm_new 1000)
     [''Starting Nmap'', ''100 Ports scanned'', ''Nmap done'']))"
proof -
  have fin: "snd (process_lines (tqdm_new 1000)
      [''Starting Nmap'', ''100 Ports scanned'', ''Nmap done'']) = None"
    by (simp only: demo_lines snd_conv)
  have cnt: "tqdm_n (fst (process_lines (tqdm_new 1000)
      [''Starting Nmap'', ''100 Ports scanned'', ''Nmap done''])) = 10"
    by (simp only: demo_lines fst_conv) simp
  from progress_count_monotone [of "tqdm_new 1000"
      "[''Starting Nmap'', ''100 Ports scanned'', ''Nmap done'']" "[]"] fin
  have "tqdm_n (fst (process_lines (tqdm_new 1000)
          [''Starting Nmap'', ''100 Ports scanned'', ''Nmap done''])) =
        tqdm_total (fst (process_lines (tqdm_new 1000)
          [''Starting Nmap'', ''100 Ports scanned'', ''Nmap done'']))
      \<longleftrightarrow> length (filter progress_line
          [''Starting Nmap'', ''100 Ports scanned'', ''Nmap done'']) = 100"
    by blast
  then have "tqdm_n (fst (process_lines (tqdm_new 1000)
          [''Starting Nmap'', ''100 Ports scanned'', ''Nmap done''])) \<noteq>
        tqdm_total (fst (process_lines (tqdm_new 1000)
          [''Starting Nmap'', ''100 Ports scanned'', ''Nmap done'']))"
    by (simp only: demo_progress_lines)
  with fin cnt demo_progress_lines show ?thesis
    by (intro conjI)
qed

text \<open>
  The claim as stated fails: in the example run the scan completes with the count at 10,
  not at the total 1000.
\<close>

theorem progress_total_not_reached:
  "fst (scan_network ''10.0.0.0/8'' ''-sS'' ''xml'' demo_world) = Inr () \<and>
   tqdm_n (pbar (snd (scan_network ''10.0.0.0/8'' ''-sS'' ''xml'' demo_world))) = 10 \<and>
   tqdm_total (pbar (snd (scan_network ''10.0.0.0/8'' ''-sS'' ''xml'' demo_world))) = 1000"
proof -
  have scanner: "port_scanner demo_world ''10.0.0.0/8'' ''-sS'' =
     Some [\<lparr>hr_host = ''10.0.0.1'', hr_state = ''up'',
            hr_protocols = [(''tcp'', [(22, ''open'')])]\<rparr>]"
    by (simp add: demo_world_def)
  have flag: "output_flags (effective_format ''xml'') = Some ''-oX''"
    by (simp add: effective_format_flag)
  have out: "popen_stdout demo_world c = [''Starting Nmap'', ''100 Ports scanned'', ''Nmap done'']" for c
    by (simp add: demo_world_def)
  show ?thesis
    unfolding scan_network_unfold [OF scanner flag refl refl refl] out demo_lines
    by simp
qed

section \<open>Properties of \<open>get_user_input\<close>\<close>

lemma validate_cidr_eq:
  "validate_cidr cidr w = (cidr_accepted cidr, if cidr_accepted cidr then w else py_print msg_invalid_cidr w)"
  by (simp add: validate_cidr_def cidr_accepted_def split: sum.split)

lemma after_reprompts_fields [simp]:
  "stdin (after_reprompts k w) = stdin w"
  "stdin_pos (after_reprompts k w) = stdin_pos w + k"
  "trace (after_reprompts k w) =
     trace w @ concat (replicate k [Prompt prompt_cidr, Print msg_invalid_cidr])"
  "clock (after_reprompts k w) = clock w"
  "path_exists (after_reprompts k w) = path_exists w"
  "port_scanner (after_reprompts k w) = port_scanner w"
  "popen_stdout (after_reprompts k w) = popen_stdout w"
  "pbar (after_reprompts k w) = pbar w"
  by (simp_all add: after_reprompts_def)

lemma after_reprompts_0 [simp]: "after_reprompts 0 w = w"
  by (simp add: after_reprompts_def)

text \<open>One turn of the loop on a rejected line, on an accepted line and at the end of input.\<close>

lemma get_user_input_rejected:
  assumes "stdin w (stdin_pos w) = Some line" "\<not> cidr_accepted (strip line)"
  shows "get_user_input w = get_user_input (after_reprompts (Suc 0) w)"
  using assms
  by (subst get_user_input.simps)
     (simp add: py_input_def validate_cidr_eq after_reprompts_def emit_def py_print_def)

lemma get_user_input_accepted:
  assumes "stdin w (stdin_pos w) = Some line" "cidr_accepted (strip line)"
  shows "get_user_input w =
     Some (Inr (strip line),
           w\<lparr>stdin_pos := Suc (stdin_pos w), trace := trace w @ [Prompt prompt_cidr]\<rparr>)"
  using assms
  by (subst get_user_input.simps) (simp add: py_input_def validate_cidr_eq emit_def)

lemma get_user_input_eof:
  assumes "stdin w (stdin_pos w) = None"
  shows "get_user_input w = Some (Inl EOFError, w\<lparr>trace := trace w @ [Prompt prompt_cidr]\<rparr>)"
  using assms
  by (subst get_user_input.simps) (simp add: py_input_def emit_def)

lemma after_reprompts_Suc:
  "after_reprompts k (after_reprompts (Suc 0) w) = after_reprompts (Suc k) w"
  by (simp add: after_reprompts_def)

lemma rejected_at_shift: "rejected_at (after_reprompts (Suc 0) w) i = rejected_at w (Suc i)"
  by (simp add: rejected_at_def)

lemma get_user_input_skip:
  "(\<And>i. i < k \<Longrightarrow> rejected_at w i) \<Longrightarrow> get_user_input w = get_user_input (after_reprompts k w)"
proof (induction k arbitrary: w)
  case 0
  show ?case by simp
next
  case (Suc k)
  have "rejected_at w 0" using Suc.prems [of 0] by simp
  then obtain line where line: "stdin w (stdin_pos w) = Some line" "\<not> cidr_accepted (strip line)"
    by (auto simp: rejected_at_def split: option.splits)
  have "get_user_input w = get_user_input (after_reprompts (Suc 0) w)"
    by (rule get_user_input_rejected [OF line])
  also have "\<dots> = get_user_input (after_reprompts k (after_reprompts (Suc 0) w))"
    by (rule Suc.IH) (simp add: rejected_at_shift Suc.prems)
  finally show ?case by (simp add: after_reprompts_Suc)
qed

lemma get_user_input_first_accepted:
  assumes "\<And>i. i < k \<Longrightarrow> rejected_at w i"
    and "stdin w (stdin_pos w + k) = Some line" and "cidr_accepted (strip line)"
  shows "get_user_input w =
     Some (Inr (strip line),
           w\<lparr>stdin_pos := Suc (stdin_pos w + k),
             trace := trace w @ concat (replicate k [Prompt prompt_cidr, Print msg_invalid_cidr]) @
                      [Prompt prompt_cidr]\<rparr>)"
proof -
  have "get_user_input w = get_user_input (after_reprompts k w)"
    by (rule get_user_input_skip) (rule assms(1))
  also have "\<dots> = Some (Inr (strip line),
      (after_reprompts k w)\<lparr>stdin_pos := Suc (stdin_pos (after_reprompts k w)),
         trace := trace (after_reprompts k w) @ [Prompt prompt_cidr]\<rparr>)"
    by (rule get_user_input_accepted) (simp_all add: assms)
  finally show ?thesis by (simp add: after_reprompts_def)
qed

lemma get_user_input_first_eof:
  assumes "\<And>i. i < k \<Longrightarrow> rejected_at w i" and "stdin w (stdin_pos w + k) = None"
  shows "get_user_input w =
     Some (Inl EOFError,
           w\<lparr>stdin_pos := stdin_pos w + k,
             trace := trace w @ concat (replicate k [Prompt prompt_cidr, Print msg_invalid_cidr]) @
                      [Prompt prompt_cidr]\<rparr>)"
proof -
  have "get_user_input w = get_user_input (after_reprompts k w)"
    by (rule get_user_input_skip) (rule assms(1))
  also have "\<dots> = Some (Inl EOFError,
      (after_reprompts k w)\<lparr>trace := trace (after_reprompts k w) @ [Prompt prompt_cidr]\<rparr>)"
    by (rule get_user_input_eof) (simp add: assms)
  finally show ?thesis by (simp add: after_reprompts_def)
qed

lemma get_user_input_returns:
  assumes "get_user_input w = Some r"
  shows "\<exists>k. \<not> rejected_at w k"
proof (rule get_user_input.raw_induct [where P = "\<lambda>w r. \<exists>k. \<not> rejected_at w k"])
  show "get_user_input w = Some r" by (rule assms)
next
  fix f :: "world \<Rightarrow> ((py_error + string) \<times> world) option" and v y
  assume IH: "\<And>x z. f x = Some z \<Longrightarrow> \<exists>k. \<not> rejected_at x k"
    and eq: "(case py_input prompt_cidr v of
                (Inl e, w1) \<Rightarrow> Some (Inl e, w1)
              | (Inr line, w1) \<Rightarrow>
                  let cidr_input = strip line
                  in case validate_cidr cidr_input w1 of
                       (ok, w2) \<Rightarrow> if ok then Some (Inr cidr_input, w2) else f w2) = Some y"
  show "\<exists>k. \<not> rejected_at v k"
  proof (cases "rejected_at v 0")
    case False
    then show ?thesis by blast
  next
    case True
    then obtain line where line: "stdin v (stdin_pos v) = Some line" "\<not> cidr_accepted (strip line)"
      by (auto simp: rejected_at_def split: option.splits)
    from eq line have "f (after_reprompts (Suc 0) v) = Some y"
      by (simp add: py_input_def validate_cidr_eq after_reprompts_def emit_def py_print_def)
    from IH [OF this] obtain k where "\<not> rejected_at (after_reprompts (Suc 0) v) k"
      by blast
    then have "\<not> rejected_at v (Suc k)"
      by (simp add: rejected_at_shift)
    then show ?thesis by blast
  qed
qed

lemma get_user_input_forever:
  "(\<And>i. rejected_at w i) \<Longrightarrow> get_user_input w = None"
  using get_user_input_returns [of w] by (cases "get_user_input w") auto

lemma get_user_input_answered:
  assumes "\<And>i. stdin w (stdin_pos w + i) \<noteq> None"
    and "get_user_input w = Some (r, w')"
  shows "\<exists>k line.
     r = Inr (strip line) \<and> stdin w (stdin_pos w + k) = Some line \<and>
     cidr_accepted (strip line) \<and> (\<forall>i<k. rejected_at w i)"
proof -
  from get_user_input_returns [OF assms(2)] obtain k
    where k: "\<not> rejected_at w k" "\<forall>i<k. rejected_at w i"
    using exists_least_iff [of "\<lambda>k. \<not> rejected_at w k"] by auto
  have first: "\<And>i. i < k \<Longrightarrow> rejected_at w i"
    using k(2) by blast
  from assms(1) [of k] obtain line where line: "stdin w (stdin_pos w + k) = Some line"
    by auto
  with k(1) have acc: "cidr_accepted (strip line)"
    by (simp add: rejected_at_def)
  from get_user_input_first_accepted [OF first line acc] assms(2)
  have "r = Inr (strip line)"
    by simp
  with line acc k(2) show ?thesis
    by blast
qed

text \<open>
  Claim C4. Whatever the lines waiting on the input: if the next \<open>k\<close> lines are rejected and
  the one after them, stripped, is accepted, \<open>get_user_input\<close> returns that stripped line
  after \<open>k\<close> error messages and \<open>k + 1\<close> prompts, having done nothing else; on an endless
  input of rejected lines it prompts forever. Every string it returns is one
  \<open>validate_cidr\<close> accepts, and is the first such line of the input. When every prompt is
  answered, the function ends in no other way than by returning that line; a prompt that
  finds the input at its end is no answer, and there \<open>input\<close> raises EOFError, which the
  function lets through.
\<close>

theorem get_user_input_first_valid:
  "(\<forall>k line.
      (\<forall>i<k. rejected_at w i) \<and> stdin w (stdin_pos w + k) = Some line \<and>
      cidr_accepted (strip line) \<longrightarrow>
      get_user_input w =
        Some (Inr (strip line),
              w\<lparr>stdin_pos := Suc (stdin_pos w + k),
                trace := trace w @
                         concat (replicate k [Prompt prompt_cidr, Print msg_invalid_cidr]) @
                         [Prompt prompt_cidr]\<rparr>)) \<and>
   (\<forall>k. (\<forall>i<k. rejected_at w i) \<and> stdin w (stdin_pos w + k) = None \<longrightarrow>
      get_user_input w =
        Some (Inl EOFError,
              w\<lparr>stdin_pos := stdin_pos w + k,
                trace := trace w @
                         concat (replicate k [Prompt prompt_cidr, Print msg_invalid_cidr]) @
                         [Prompt prompt_cidr]\<rparr>)) \<and>
   ((\<forall>i. rejected_at w i) \<longrightarrow> get_user_input w = None) \<and>
   (\<forall>s w'. get_user_input w = Some (Inr s, w') \<longrightarrow>
      fst (validate_cidr s w') \<and>
      (\<exists>k line.
         s = strip line \<and> stdin w (stdin_pos w + k) = Some line \<and> (\<forall>i<k. rejected_at w i) \<and>
         w' = w\<lparr>stdin_pos := Suc (stdin_pos w + k),
                trace := trace w @
                         concat (replicate k [Prompt prompt_cidr, Print msg_invalid_cidr]) @
                         [Prompt prompt_cidr]\<rparr>)) \<and>
   ((\<forall>i. stdin w (stdin_pos w + i) \<noteq> None) \<longrightarrow>
      (\<forall>r w'. get_user_input w = Some (r, w') \<longrightarrow>
         (\<exists>k line. r = Inr (strip line) \<and> stdin w (stdin_pos w + k) = Some line \<and>
            cidr_accepted (strip line) \<and> (\<forall>i<k. rejected_at w i))))"
proof -
  have accepted: "\<forall>k line.
      (\<forall>i<k. rejected_at w i) \<and> stdin w (stdin_pos w + k) = Some line \<and>
      cidr_accepted (strip line) \<longrightarrow>
      get_user_input w =
        Some (Inr (strip line),
              w\<lparr>stdin_pos := Suc (stdin_pos w + k),
                trace := trace w @
                         concat (replicate k [Prompt prompt_cidr, Print msg_invalid_cidr]) @
                         [Prompt prompt_cidr]\<rparr>)"
  proof (intro allI impI)
    fix k line
    assume "(\<forall>i<k. rejected_at w i) \<and> stdin w (stdin_pos w + k) = Some line \<and>
        cidr_accepted (strip line)"
    then show "get_user_input w =
          Some (Inr (strip line),
                w\<lparr>stdin_pos := Suc (stdin_pos w + k),
                  trace := trace w @
                           concat (replicate k [Prompt prompt_cidr, Print msg_invalid_cidr]) @
                           [Prompt prompt_cidr]\<rparr>)"
      by (intro get_user_input_first_accepted) simp_all
  qed
  have eof: "\<forall>k. (\<forall>i<k. rejected_at w i) \<and> stdin w (stdin_pos w + k) = None \<longrightarrow>
      get_user_input w =
        Some (Inl EOFError,
              w\<lparr>stdin_pos := stdin_pos w + k,
                trace := trace w @
                         concat (replicate k [Prompt prompt_cidr, Print msg_invalid_cidr]) @
                         [Prompt prompt_cidr]\<rparr>)"
  proof (intro allI impI)
    fix k
    assume "(\<forall>i<k. rejected_at w i) \<and> stdin w (stdin_pos w + k) = None"
    then show "get_user_input w =
          Some (Inl EOFError,
                w\<lparr>stdin_pos := stdin_pos w + k,
                  trace := trace w @
                           concat (replicate k [Prompt prompt_cidr, Print msg_invalid_cidr]) @
                           [Prompt prompt_cidr]\<rparr>)"
      by (intro get_user_input_first_eof) simp_all
  qed
  have forever: "(\<forall>i. rejected_at w i) \<longrightarrow> get_user_input w = None"
    by (simp add: get_user_input_forever)
  have sound: "\<forall>s w'. get_user_input w = Some (Inr s, w') \<longrightarrow>
      fst (validate_cidr s w') \<and>
      (\<exists>k line.
         s = strip line \<and> stdin w (stdin_pos w + k) = Some line \<and> (\<forall>i<k. rejected_at w i) \<and>
         w' = w\<lparr>stdin_pos := Suc (stdin_pos w + k),
                trace := trace w @
                         concat (replicate k [Prompt prompt_cidr, Print msg_invalid_cidr]) @
                         [Prompt prompt_cidr]\<rparr>)"
  proof (intro allI impI)
    fix s w'
    assume ret: "get_user_input w = Some (Inr s, w')"
    from get_user_input_returns [OF ret] obtain k
      where k: "\<not> rejected_at w k" "\<forall>i<k. rejected_at w i"
      using exists_least_iff [of "\<lambda>k. \<not> rejected_at w k"] by auto
    have first: "\<And>i. i < k \<Longrightarrow> rejected_at w i"
      using k(2) by blast
    show "fst (validate_cidr s w') \<and>
        (\<exists>k line.
           s = strip line \<and> stdin w (stdin_pos w + k) = Some line \<and> (\<forall>i<k. rejected_at w i) \<and>
           w' = w\<lparr>stdin_pos := Suc (stdin_pos w + k),
                  trace := trace w @
                           concat (replicate k [Prompt prompt_cidr, Print msg_invalid_cidr]) @
                           [Prompt prompt_cidr]\<rparr>)"
    proof (cases "stdin w (stdin_pos w + k)")
      case None
      from get_user_input_first_eof [OF first None] ret show ?thesis
        by simp
    next
      case (Some line)
      with k(1) have acc: "cidr_accepted (strip line)"
        by (simp add: rejected_at_def)
      from get_user_input_first_accepted [OF first Some acc] ret
      have s: "s = strip line"
        and w': "w' = w\<lparr>stdin_pos := Suc (stdin_pos w + k),
                  trace := trace w @
                           concat (replicate k [Prompt prompt_cidr, Print msg_invalid_cidr]) @
                           [Prompt prompt_cidr]\<rparr>"
        by simp_all
      have "fst (validate_cidr s w')"
        using acc s by (simp add: validate_cidr_eq)
      with s w' Some k(2) show ?thesis
        by blast
    qed
  qed
  have answered: "(\<forall>i. stdin w (stdin_pos w + i) \<noteq> None) \<longrightarrow>
      (\<forall>r w'. get_user_input w = Some (r, w') \<longrightarrow>
         (\<exists>k line. r = Inr (strip line) \<and> stdin w (stdin_pos w + k) = Some line \<and>
            cidr_accepted (strip line) \<and> (\<forall>i<k. rejected_at w i)))"
  proof (intro allI impI)
    fix r w'
    assume "\<forall>i. stdin w (stdin_pos w + i) \<noteq> None"
      and "get_user_input w = Some (r, w')"
    then show "\<exists>k line. r = Inr (strip line) \<and> stdin w (stdin_pos w + k) = Some line \<and>
            cidr_accepted (strip line) \<and> (\<forall>i<k. rejected_at w i)"
      by (intro get_user_input_answered) simp_all
  qed
  from accepted eof forever sound answered show ?thesis
    by (intro conjI)
qed

lemma demo_cidrs:
  "strip '' 10.0.0.0/8 '' = ''10.0.0.0/8''" "strip ''10.0.0.1/8'' = ''10.0.0.1/8''"
  "cidr_accepted ''10.0.0.0/8''" "\<not> cidr_accepted ''10.0.0.1/8''"
  by code_simp+

theorem get_user_input_first_valid_witness:
  "rejected_at (demo_world\<lparr>stdin_pos := 1\<rparr>) 0 \<and>
   stdin (demo_world\<lparr>stdin_pos := 1\<rparr>) 2 = Some '' 10.0.0.0/8 '' \<and>
   cidr_accepted (strip '' 10.0.0.0/8 '') \<and>
   get_user_input (demo_world\<lparr>stdin_pos := 1\<rparr>) =
     Some (Inr ''10.0.0.0/8'',
           demo_world\<lparr>stdin_pos := 3,
             trace := [Prompt prompt_cidr, Print msg_invalid_cidr, Prompt prompt_cidr]\<rparr>)"
proof -
  have rej: "rejected_at (demo_world\<lparr>stdin_pos := 1\<rparr>) 0"
    by (simp add: rejected_at_def demo_world_def demo_cidrs)
  have line: "stdin (demo_world\<lparr>stdin_pos := 1\<rparr>) 2 = Some '' 10.0.0.0/8 ''"
    by (simp add: demo_world_def)
  have acc: "cidr_accepted (strip '' 10.0.0.0/8 '')"
    by (simp add: demo_cidrs)
  have pre: "(\<forall>i<1. rejected_at (demo_world\<lparr>stdin_pos := 1\<rparr>) i) \<and>
      stdin (demo_world\<lparr>stdin_pos := 1\<rparr>) (stdin_pos (demo_world\<lparr>stdin_pos := 1\<rparr>) + 1) =
        Some '' 10.0.0.0/8 '' \<and>
      cidr_accepted (strip '' 10.0.0.0/8 '')"
    by (simp add: rejected_at_def demo_world_def demo_cidrs)
  from get_user_input_first_valid [of "demo_world\<lparr>stdin_pos := 1\<rparr>"]
  have "(\<forall>i<1. rejected_at (demo_world\<lparr>stdin_pos := 1\<rparr>) i) \<and>
      stdin (demo_world\<lparr>stdin_pos := 1\<rparr>) (stdin_pos (demo_world\<lparr>stdin_pos := 1\<rparr>) + 1) =
        Some '' 10.0.0.0/8 '' \<and>
      cidr_accepted (strip '' 10.0.0.0/8 '') \<longrightarrow>
      get_user_input (demo_world\<lparr>stdin_pos := 1\<rparr>) =
        Some (Inr (strip '' 10.0.0.0/8 ''),
              demo_world\<lparr>stdin_pos := 1\<rparr>\<lparr>stdin_pos :=
                  Suc (stdin_pos (demo_world\<lparr>stdin_pos := 1\<rparr>) + 1),
                trace := trace (demo_world\<lparr>stdin_pos := 1\<rparr>) @
                         concat (replicate 1 [Prompt prompt_cidr, Print msg_invalid_cidr]) @
                         [Prompt prompt_cidr]\<rparr>)"
    by blast
  with pre have "get_user_input (demo_world\<lparr>stdin_pos := 1\<rparr>) =
        Some (Inr (strip '' 10.0.0.0/8 ''),
              demo_world\<lparr>stdin_pos := 1\<rparr>\<lparr>stdin_pos :=
                  Suc (stdin_pos (demo_world\<lparr>stdin_pos := 1\<rparr>) + 1),
                trace := trace (demo_world\<lparr>stdin_pos := 1\<rparr>) @
                         concat (replicate 1 [Prompt prompt_cidr, Print msg_invalid_cidr]) @
                         [Prompt prompt_cidr]\<rparr>)"
    by (rule rev_mp)
  then have "get_user_input (demo_world\<lparr>stdin_pos := 1\<rparr>) =
     Some (Inr ''10.0.0.0/8'',
           demo_world\<lparr>stdin_pos := 3,
             trace := [Prompt prompt_cidr, Print msg_invalid_cidr, Prompt prompt_cidr]\<rparr>)"
    by (simp add: demo_cidrs) (simp add: demo_world_def)
  with rej line acc show ?thesis
    by (intro conjI)
qed

text \<open>
  Python's white space outside ASCII is stripped too: a line with a no-break space on
  either side of a canonical CIDR text is returned, stripped, at the first prompt.
\<close>

lemma get_user_input_unicode_space:
  "get_user_input
     (demo_world\<lparr>stdin := (\<lambda>i. Some ([CHR 0xC2, CHR 0xA0] @ ''10.0.0.0/8'' @ [CHR 0xC2, CHR 0xA0]))\<rparr>) =
   Some (Inr ''10.0.0.0/8'',
         demo_world\<lparr>stdin := (\<lambda>i. Some ([CHR 0xC2, CHR 0xA0] @ ''10.0.0.0/8'' @ [CHR 0xC2, CHR 0xA0])),
           stdin_pos := 1, trace := [Prompt prompt_cidr]\<rparr>)"
proof -
  let ?line = "[CHR 0xC2, CHR 0xA0] @ ''10.0.0.0/8'' @ [CHR 0xC2, CHR 0xA0]"
  let ?w = "demo_world\<lparr>stdin := (\<lambda>i. Some ?line)\<rparr>"
  have line: "stdin ?w (stdin_pos ?w) = Some ?line"
    by simp
  have acc: "cidr_accepted (strip ?line)"
    by (simp only: strip_unicode demo_cidrs)
  from get_user_input_accepted [OF line acc] show ?thesis
    by (simp only: strip_unicode) (simp add: demo_world_def)
qed

section \<open>Properties of \<open>main\<close>\<close>

lemma world_update_swap:
  "w\<lparr>trace := tr, stdin_pos := p\<rparr> = w\<lparr>stdin_pos := p, trace := tr\<rparr>"
  by (cases w) simp

lemma main_help:
  assumes "stdin w (stdin_pos w) = Some answer" "lower (strip answer) = ''yes''"
  shows "main w =
     Some (Inr (), w\<lparr>stdin_pos := Suc (stdin_pos w),
                     trace := trace w @ [Prompt prompt_help, Print help_text]\<rparr>)"
  using assms by (simp add: main_def py_input_def getHelp_def emit_def py_print_def)

lemma main_scan:
  assumes "stdin w (stdin_pos w) = Some answer" "lower (strip answer) \<noteq> ''yes''"
  shows "main w =
     (case get_user_input (w\<lparr>stdin_pos := Suc (stdin_pos w),
                             trace := trace w @ [Prompt prompt_help]\<rparr>) of
        None \<Rightarrow> None
      | Some (Inl e, w1) \<Rightarrow> Some (Inl e, w1)
      | Some (Inr target_cidr, w1) \<Rightarrow>
          (case py_input prompt_format w1 of
             (Inl e, w2) \<Rightarrow> Some (Inl e, w2)
           | (Inr fmt, w2) \<Rightarrow>
               Some (scan_network target_cidr ''-sS -sV -O -A -p 1-1000'' (lower (strip fmt)) w2)))"
  unfolding main_def Let_def
  using assms by (simp add: py_input_def emit_def world_update_swap)

lemma rejected_at_trace [simp]: "rejected_at (w\<lparr>trace := tr\<rparr>) i = rejected_at w i"
  by (simp add: rejected_at_def)

lemma main_scan_run:
  assumes "stdin w (stdin_pos w) = Some answer" "lower (strip answer) \<noteq> ''yes''"
    and "\<And>i. i < k \<Longrightarrow> rejected_at (w\<lparr>stdin_pos := Suc (stdin_pos w)\<rparr>) i"
    and "stdin w (stdin_pos w + k + 1) = Some line" "cidr_accepted (strip line)"
    and "stdin w (stdin_pos w + k + 2) = Some fmt"
  shows "main w =
     Some (scan_network (strip line) ''-sS -sV -O -A -p 1-1000'' (lower (strip fmt))
             (w\<lparr>stdin_pos := stdin_pos w + k + 3,
                trace := trace w @ [Prompt prompt_help] @
                         concat (replicate k [Prompt prompt_cidr, Print msg_invalid_cidr]) @
                         [Prompt prompt_cidr, Prompt prompt_format]\<rparr>))"
proof -
  define w0 where "w0 = w\<lparr>stdin_pos := Suc (stdin_pos w), trace := trace w @ [Prompt prompt_help]\<rparr>"
  have rej: "\<And>i. i < k \<Longrightarrow> rejected_at w0 i"
    using assms(3) by (simp add: w0_def)
  have line: "stdin w0 (stdin_pos w0 + k) = Some line"
    using assms(4) by (simp add: w0_def)
  have "get_user_input w0 =
     Some (Inr (strip line),
           w0\<lparr>stdin_pos := Suc (stdin_pos w0 + k),
             trace := trace w0 @ concat (replicate k [Prompt prompt_cidr, Print msg_invalid_cidr]) @
                      [Prompt prompt_cidr]\<rparr>)"
    by (rule get_user_input_first_accepted [OF rej line assms(5)])
  then show ?thesis
    using assms(6)
    by (simp add: main_scan [OF assms(1,2)] w0_def [symmetric])
       (simp add: w0_def py_input_def emit_def eval_nat_numeral world_update_swap)
qed

text \<open>
  Claim C6. If the answer to the first prompt, stripped and lowered, is \<open>yes\<close>, \<open>main\<close>
  prints the usage text and returns: the two events of the run are the prompt and the
  text, so no range is asked for, no command is built and no scan is run. For every other
  answer \<open>main\<close> goes on with \<open>get_user_input\<close>, the prompt for the format and
  \<open>scan_network\<close> with the fixed options; on an input with a valid range and a format it
  ends in that call of \<open>scan_network\<close>.
\<close>

theorem main_help_short_circuit:
  "(\<forall>answer. stdin w (stdin_pos w) = Some answer \<and> lower (strip answer) = ''yes'' \<longrightarrow>
      main w =
        Some (Inr (), w\<lparr>stdin_pos := Suc (stdin_pos w),
                        trace := trace w @ [Prompt prompt_help, Print help_text]\<rparr>) \<and>
      new_events w
        (w\<lparr>stdin_pos := Suc (stdin_pos w),
           trace := trace w @ [Prompt prompt_help, Print help_text]\<rparr>) =
        [Prompt prompt_help, Print help_text]) \<and>
   (\<forall>answer. stdin w (stdin_pos w) = Some answer \<and> lower (strip answer) \<noteq> ''yes'' \<longrightarrow>
      main w =
        (case get_user_input (w\<lparr>stdin_pos := Suc (stdin_pos w),
                                trace := trace w @ [Prompt prompt_help]\<rparr>) of
           None \<Rightarrow> None
         | Some (Inl e, w1) \<Rightarrow> Some (Inl e, w1)
         | Some (Inr target_cidr, w1) \<Rightarrow>
             (case py_input prompt_format w1 of
                (Inl e, w2) \<Rightarrow> Some (Inl e, w2)
              | (Inr fmt, w2) \<Rightarrow>
                  Some (scan_network target_cidr ''-sS -sV -O -A -p 1-1000''
                          (lower (strip fmt)) w2)))) \<and>
   (\<forall>answer k line fmt.
      stdin w (stdin_pos w) = Some answer \<and> lower (strip answer) \<noteq> ''yes'' \<and>
      (\<forall>i<k. rejected_at (w\<lparr>stdin_pos := Suc (stdin_pos w)\<rparr>) i) \<and>
      stdin w (stdin_pos w + k + 1) = Some line \<and> cidr_accepted (strip line) \<and>
      stdin w (stdin_pos w + k + 2) = Some fmt \<longrightarrow>
      main w =
        Some (scan_network (strip line) ''-sS -sV -O -A -p 1-1000'' (lower (strip fmt))
                (w\<lparr>stdin_pos := stdin_pos w + k + 3,
                   trace := trace w @ [Prompt prompt_help] @
                            concat (replicate k [Prompt prompt_cidr, Print msg_invalid_cidr]) @
                            [Prompt prompt_cidr, Prompt prompt_format]\<rparr>)))"
proof -
  have helped: "\<forall>answer. stdin w (stdin_pos w) = Some answer \<and> lower (strip answer) = ''yes'' \<longrightarrow>
      main w =
        Some (Inr (), w\<lparr>stdin_pos := Suc (stdin_pos w),
                        trace := trace w @ [Prompt prompt_help, Print help_text]\<rparr>) \<and>
      new_events w
        (w\<lparr>stdin_pos := Suc (stdin_pos w),
           trace := trace w @ [Prompt prompt_help, Print help_text]\<rparr>) =
        [Prompt prompt_help, Print help_text]"
    by (simp add: main_help new_events_def)
  have flow: "\<forall>answer. stdin w (stdin_pos w) = Some answer \<and> lower (strip answer) \<noteq> ''yes'' \<longrightarrow>
      main w =
        (case get_user_input (w\<lparr>stdin_pos := Suc (stdin_pos w),
                                trace := trace w @ [Prompt prompt_help]\<rparr>) of
           None \<Rightarrow> None
         | Some (Inl e, w1) \<Rightarrow> Some (Inl e, w1)
         | Some (Inr target_cidr, w1) \<Rightarrow>
             (case py_input prompt_format w1 of
                (Inl e, w2) \<Rightarrow> Some (Inl e, w2)
              | (Inr fmt, w2) \<Rightarrow>
                  Some (scan_network target_cidr ''-sS -sV -O -A -p 1-1000''
                          (lower (strip fmt)) w2)))"
  proof (intro allI impI)
    fix answer
    assume "stdin w (stdin_pos w) = Some answer \<and> lower (strip answer) \<noteq> ''yes''"
    then have a: "stdin w (stdin_pos w) = Some answer" and b: "lower (strip answer) \<noteq> ''yes''"
      by simp_all
    show "main w =
        (case get_user_input (w\<lparr>stdin_pos := Suc (stdin_pos w),
                                trace := trace w @ [Prompt prompt_help]\<rparr>) of
           None \<Rightarrow> None
         | Some (Inl e, w1) \<Rightarrow> Some (Inl e, w1)
         | Some (Inr target_cidr, w1) \<Rightarrow>
             (case py_input prompt_format w1 of
                (Inl e, w2) \<Rightarrow> Some (Inl e, w2)
              | (Inr fmt, w2) \<Rightarrow>
                  Some (scan_network target_cidr ''-sS -sV -O -A -p 1-1000''
                          (lower (strip fmt)) w2)))"
      by (rule main_scan [OF a b])
  qed
  have run_through: "\<forall>answer k line fmt.
      stdin w (stdin_pos w) = Some answer \<and> lower (strip answer) \<noteq> ''yes'' \<and>
      (\<forall>i<k. rejected_at (w\<lparr>stdin_pos := Suc (stdin_pos w)\<rparr>) i) \<and>
      stdin w (stdin_pos w + k + 1) = Some line \<and> cidr_accepted (strip line) \<and>
      stdin w (stdin_pos w + k + 2) = Some fmt \<longrightarrow>
      main w =
        Some (scan_network (strip line) ''-sS -sV -O -A -p 1-1000'' (lower (strip fmt))
                (w\<lparr>stdin_pos := stdin_pos w + k + 3,
                   trace := trace w @ [Prompt prompt_help] @
                            concat (replicate k [Prompt prompt_cidr, Print msg_invalid_cidr]) @
                            [Prompt prompt_cidr, Prompt prompt_format]\<rparr>))"
  proof (intro allI impI)
    fix answer k line fmt
    assume h: "stdin w (stdin_pos w) = Some answer \<and> lower (strip answer) \<noteq> ''yes'' \<and>
      (\<forall>i<k. rejected_at (w\<lparr>stdin_pos := Suc (stdin_pos w)\<rparr>) i) \<and>
      stdin w (stdin_pos w + k + 1) = Some line \<and> cidr_accepted (strip line) \<and>
      stdin w (stdin_pos w + k + 2) = Some fmt"
    show "main w =
        Some (scan_network (strip line) ''-sS -sV -O -A -p 1-1000'' (lower (strip fmt))
                (w\<lparr>stdin_pos := stdin_pos w + k + 3,
                   trace := trace w @ [Prompt prompt_help] @
                            concat (replicate k [Prompt prompt_cidr, Print msg_invalid_cidr]) @
                            [Prompt prompt_cidr, Prompt prompt_format]\<rparr>))"
      by (rule main_scan_run [of w answer k line fmt]) (use h in simp_all)
  qed
  from helped flow run_through show ?thesis
    by (intro conjI)
qed

lemma demo_answers:
  "lower (strip ''no'') \<noteq> ''yes''" "lower (strip '' Yes '') = ''yes''" "lower (strip ''YAML'') = ''yaml''"
  by code_simp+

theorem main_help_short_circuit_witness:
  "lower (strip '' Yes '') = ''yes'' \<and>
   main (demo_world\<lparr>stdin := (\<lambda>i. Some '' Yes '')\<rparr>) =
     Some (Inr (), demo_world\<lparr>stdin := (\<lambda>i. Some '' Yes ''), stdin_pos := 1,
                               trace := [Prompt prompt_help, Print help_text]\<rparr>) \<and>
   lower (strip ''no'') \<noteq> ''yes'' \<and>
   main demo_world =
     Some (scan_network ''10.0.0.0/8'' ''-sS -sV -O -A -p 1-1000'' ''yaml''
             (demo_world\<lparr>stdin_pos := 4,
                trace := [Prompt prompt_help, Prompt prompt_cidr, Print msg_invalid_cidr,
                          Prompt prompt_cidr, Prompt prompt_format]\<rparr>))"
proof -
  let ?h = "demo_world\<lparr>stdin := (\<lambda>i. Some '' Yes '')\<rparr>"
  have agreed: "stdin ?h (stdin_pos ?h) = Some '' Yes '' \<and> lower (strip '' Yes '') = ''yes''"
    by (simp add: demo_answers)
  from main_help_short_circuit [of ?h] agreed
  have "main ?h =
        Some (Inr (), ?h\<lparr>stdin_pos := Suc (stdin_pos ?h),
                        trace := trace ?h @ [Prompt prompt_help, Print help_text]\<rparr>)"
    by blast
  then have helped: "main ?h =
     Some (Inr (), demo_world\<lparr>stdin := (\<lambda>i. Some '' Yes ''), stdin_pos := 1,
                               trace := [Prompt prompt_help, Print help_text]\<rparr>)"
    by (simp add: demo_world_def)
  have declined: "stdin demo_world (stdin_pos demo_world) = Some ''no'' \<and>
      lower (strip ''no'') \<noteq> ''yes'' \<and>
      (\<forall>i<1. rejected_at (demo_world\<lparr>stdin_pos := Suc (stdin_pos demo_world)\<rparr>) i) \<and>
      stdin demo_world (stdin_pos demo_world + 1 + 1) = Some '' 10.0.0.0/8 '' \<and>
      cidr_accepted (strip '' 10.0.0.0/8 '') \<and>
      stdin demo_world (stdin_pos demo_world + 1 + 2) = Some ''YAML''"
    by (simp add: demo_answers demo_cidrs rejected_at_def demo_world_def)
  from main_help_short_circuit [of demo_world] declined
  have "main demo_world =
        Some (scan_network (strip '' 10.0.0.0/8 '') ''-sS -sV -O -A -p 1-1000'' (lower (strip ''YAML''))
                (demo_world\<lparr>stdin_pos := stdin_pos demo_world + 1 + 3,
                   trace := trace demo_world @ [Prompt prompt_help] @
                            concat (replicate 1 [Prompt prompt_cidr, Print msg_invalid_cidr]) @
                            [Prompt prompt_cidr, Prompt prompt_format]\<rparr>))"
    by blast
  then have scanned: "main demo_world =
     Some (scan_network ''10.0.0.0/8'' ''-sS -sV -O -A -p 1-1000'' ''yaml''
             (demo_world\<lparr>stdin_pos := 4,
                trace := [Prompt prompt_help, Prompt prompt_cidr, Print msg_invalid_cidr,
                          Prompt prompt_cidr, Prompt prompt_format]\<rparr>))"
    by (simp add: demo_answers demo_cidrs) (simp add: demo_world_def)
  from helped scanned demo_answers(1,2) show ?thesis
    by (intro conjI)
qed

text \<open>
  The answer \<open>YES\<close> between an em space and a next-line character is the answer \<open>yes\<close>:
  the help is printed and nothing else happens.
\<close>

lemma main_help_unicode_space:
  "main (demo_world\<lparr>stdin :=
           (\<lambda>i. Some ([CHR 0xE2, CHR 0x80, CHR 0x83] @ ''YES'' @ [CHR 0xC2, CHR 0x85]))\<rparr>) =
   Some (Inr (),
         demo_world\<lparr>stdin :=
             (\<lambda>i. Some ([CHR 0xE2, CHR 0x80, CHR 0x83] @ ''YES'' @ [CHR 0xC2, CHR 0x85])),
           stdin_pos := 1, trace := [Prompt prompt_help, Print help_text]\<rparr>)"
proof -
  let ?line = "[CHR 0xE2, CHR 0x80, CHR 0x83] @ ''YES'' @ [CHR 0xC2, CHR 0x85]"
  let ?w = "demo_world\<lparr>stdin := (\<lambda>i. Some ?line)\<rparr>"
  have line: "stdin ?w (stdin_pos ?w) = Some ?line"
    by simp
  have agreed: "lower (strip ?line) = ''yes''"
    by (simp only: strip_unicode)
  from main_help [OF line agreed] show ?thesis
    by (simp add: demo_world_def)
qed

section \<open>Properties of \<open>validate_cidr\<close>\<close>

subsection \<open>Printing and reading numbers\<close>

lemma digit_char_cases:
  assumes "k < (10::nat)"
  shows "k \<in> {0, 1, 2, 3, 4, 5, 6, 7, 8, 9}"
  using assms by auto

lemma digit_val_digit_char: "k < 10 \<Longrightarrow> digit_val (digit_char k) = k"
  using digit_char_cases [of k] by (auto simp: digit_val_def digit_char_def)

lemma digit_char_nonzero: "0 < k \<Longrightarrow> k < 10 \<Longrightarrow> digit_char k \<noteq> CHR ''0''"
  using digit_char_cases [of k] by (auto simp: digit_char_def)

lemma str_nat_digits: "list_all is_digit (str_nat n)"
proof (induction n rule: str_nat.induct)
  case (1 n)
  show ?case
  proof (cases "n < 10")
    case True
    then show ?thesis by (simp add: str_nat_1 is_digit_digit_char)
  next
    case False
    then have "list_all is_digit (str_nat (n div 10))" by (rule 1)
    then show ?thesis using False by (simp add: str_nat_step is_digit_digit_char)
  qed
qed

lemma str_nat_nonempty: "str_nat n \<noteq> []"
  by (subst str_nat.simps) simp

lemma str_nat_isdigit: "isascii_isdigit (str_nat n)"
  by (simp add: isascii_isdigit_def str_nat_nonempty str_nat_digits)

lemma foldl_digits_snoc:
  "foldl (\<lambda>acc c. 10 * acc + digit_val c) 0 (xs @ [c]) =
     10 * foldl (\<lambda>acc c. 10 * acc + digit_val c) 0 xs + digit_val c"
  by simp

lemma int_of_digits_str_nat: "int_of_digits (str_nat n) = int n"
proof (induction n rule: str_nat.induct)
  case (1 n)
  show ?case
  proof (cases "n < 10")
    case True
    then show ?thesis by (simp add: str_nat_1 int_of_digits_def digit_val_digit_char)
  next
    case False
    then have "int_of_digits (str_nat (n div 10)) = int (n div 10)" by (rule 1)
    then have "foldl (\<lambda>acc c. 10 * acc + digit_val c) 0 (str_nat (n div 10)) = n div 10"
      by (simp add: int_of_digits_def)
    then show ?thesis
      using False by (simp add: str_nat_step int_of_digits_def digit_val_digit_char)
  qed
qed

lemma hd_str_nat: "0 < n \<Longrightarrow> hd (str_nat n) \<noteq> CHR ''0''"
proof (induction n rule: str_nat.induct)
  case (1 n)
  show ?case
  proof (cases "n < 10")
    case True
    then show ?thesis using 1(2) by (simp add: str_nat_1 digit_char_nonzero)
  next
    case False
    then have "0 < n div 10" by simp
    with False have "hd (str_nat (n div 10)) \<noteq> CHR ''0''" by (intro 1) simp_all
    then show ?thesis using False by (simp add: str_nat_step str_nat_nonempty)
  qed
qed

lemma str_nat_0: "str_nat 0 = ''0''"
  by (simp add: str_nat_1 digit_char_def)

lemma str_nat_eq_0: "str_nat n = ''0'' \<longleftrightarrow> n = 0"
proof
  assume "str_nat n = ''0''"
  then have "int_of_digits (str_nat n) = int_of_digits ''0''" by simp
  then show "n = 0" by (simp add: int_of_digits_str_nat) (simp add: int_of_digits_def digit_val_def)
qed (simp add: str_nat_0)

lemma length_str_nat_octet: "n \<le> 255 \<Longrightarrow> length (str_nat n) \<le> 3"
proof -
  assume "n \<le> 255"
  then consider "n < 10" | "10 \<le> n" "n < 100" | "100 \<le> n" "n < 1000" by linarith
  then show ?thesis by cases (simp_all add: str_nat_1 str_nat_2 str_nat_3)
qed

lemma length_str_nat_prefix: "n \<le> 32 \<Longrightarrow> length (str_nat n) \<le> 2"
proof -
  assume "n \<le> 32"
  then consider "n < 10" | "10 \<le> n" "n < 100" by linarith
  then show ?thesis by cases (simp_all add: str_nat_1 str_nat_2)
qed

lemma is_digit_not_sep: "is_digit c \<Longrightarrow> c \<noteq> CHR ''.'' \<and> c \<noteq> CHR ''/''"
  by (auto simp: is_digit_def)

lemma str_nat_no_sep: "CHR ''.'' \<notin> set (str_nat n)" "CHR ''/'' \<notin> set (str_nat n)"
  using str_nat_digits [of n] is_digit_not_sep by (auto simp: list_all_iff)

lemma parse_octet_str_nat:
  "parse_octet (str_nat n) = (if n \<le> 255 then Inr (int n) else Inl ValueError)"
proof (cases "n \<le> 255")
  case True
  have "\<not> (str_nat n \<noteq> ''0'' \<and> hd (str_nat n) = CHR ''0'')"
    using hd_str_nat [of n] str_nat_eq_0 [of n] by (cases "n = 0") auto
  then show ?thesis
    using True length_str_nat_octet [OF True]
    by (simp add: parse_octet_def str_nat_nonempty str_nat_isdigit int_of_digits_str_nat)
next
  case False
  then show ?thesis
    by (simp add: parse_octet_def str_nat_nonempty str_nat_isdigit int_of_digits_str_nat Let_def)
qed

lemma split_char_no_sep: "sep \<notin> set xs \<Longrightarrow> split_char sep xs = [xs]"
  by (induction xs) auto

lemma split_char_append:
  "sep \<notin> set xs \<Longrightarrow> split_char sep (xs @ sep # ys) = xs # split_char sep ys"
  by (induction xs) auto

lemma dotted_quad_no_slash: "CHR ''/'' \<notin> set (dotted_quad a b c d)"
  by (simp add: dotted_quad_def str_nat_no_sep)

lemma dotted_quad_nonempty: "dotted_quad a b c d \<noteq> []"
  by (simp add: dotted_quad_def str_nat_nonempty)

lemma split_dotted_quad:
  "split_char CHR ''.'' (dotted_quad a b c d) = [str_nat a, str_nat b, str_nat c, str_nat d]"
  by (simp add: dotted_quad_def split_char_append split_char_no_sep str_nat_no_sep)

lemma ip_int_from_string_dotted_quad:
  "ip_int_from_string (dotted_quad a b c d) =
     (if a \<le> 255 \<and> b \<le> 255 \<and> c \<le> 255 \<and> d \<le> 255 then Inr (int (address_int a b c d))
      else Inl AddressValueError)"
  by (simp add: ip_int_from_string_def dotted_quad_nonempty split_dotted_quad parse_octet_str_nat
      from_bytes_big_def address_int_def)

lemma IPv4Address_str_dotted_quad:
  "IPv4Address_str (dotted_quad a b c d) =
     (if a \<le> 255 \<and> b \<le> 255 \<and> c \<le> 255 \<and> d \<le> 255 then Inr (int (address_int a b c d))
      else Inl AddressValueError)"
  by (simp add: IPv4Address_str_def dotted_quad_no_slash ip_int_from_string_dotted_quad)

lemma split_addr_prefix_cidr_string:
  "split_addr_prefix (cidr_string a b c d p) = Inr (dotted_quad a b c d, MaskStr (str_nat p))"
  by (simp add: split_addr_prefix_def split_optional_netmask_def cidr_string_def
      split_char_append split_char_no_sep dotted_quad_no_slash str_nat_no_sep)

lemma prefix_from_prefix_string_str_nat:
  "prefix_from_prefix_string (str_nat p) = (if p \<le> 32 then Inr p else Inl NetmaskValueError)"
proof (cases "p \<le> 32")
  case True
  then show ?thesis
    using length_str_nat_prefix [OF True]
    by (simp add: prefix_from_prefix_string_def str_nat_isdigit int_of_digits_str_nat IPV4LENGTH_def)
next
  case False
  then show ?thesis
    by (simp add: prefix_from_prefix_string_def str_nat_isdigit int_of_digits_str_nat IPV4LENGTH_def)
qed

lemma prefix_from_ip_string_str_nat: "prefix_from_ip_string (str_nat p) = Inl NetmaskValueError"
  by (simp add: prefix_from_ip_string_def ip_int_from_string_def str_nat_nonempty
      split_char_no_sep str_nat_no_sep)

subsection \<open>The netmask and the host bits\<close>

lemma ALL_ONES_mask: "ALL_ONES = mask 32"
  by (simp add: ALL_ONES_def IPV4LENGTH_def mask_eq_exp_minus_1)

lemma bit_ip_int_from_prefix:
  "p \<le> 32 \<Longrightarrow> bit (ip_int_from_prefix p) n \<longleftrightarrow> 32 - p \<le> n \<and> n < 32"
  by (auto simp: ip_int_from_prefix_def ALL_ONES_mask bit_xor_iff bit_drop_bit_eq bit_mask_iff)

lemma ip_int_from_prefix_eq:
  "p \<le> 32 \<Longrightarrow> ip_int_from_prefix p = push_bit (32 - p) (mask p)"
  by (rule bit_eqI) (auto simp: bit_ip_int_from_prefix bit_push_bit_iff bit_mask_iff)

lemma ip_int_from_prefix_range:
  assumes "p \<le> 32"
  shows "0 \<le> ip_int_from_prefix p" "ip_int_from_prefix p \<le> ALL_ONES"
proof -
  show "0 \<le> ip_int_from_prefix p"
    by (simp add: ip_int_from_prefix_eq [OF assms])
  have "ip_int_from_prefix p = take_bit 32 (ip_int_from_prefix p)"
    by (rule bit_eqI) (auto simp: bit_ip_int_from_prefix [OF assms] bit_take_bit_iff)
  also have "\<dots> \<le> mask 32"
    by (simp add: take_bit_eq_mask)
  finally show "ip_int_from_prefix p \<le> ALL_ONES"
    by (simp add: ALL_ONES_mask)
qed

lemma host_bits:
  assumes "p \<le> 32" "0 \<le> ip" "ip < 2 ^ 32"
  shows "ip AND ip_int_from_prefix p = ip \<longleftrightarrow> ip mod 2 ^ (32 - p) = 0"
proof -
  have ip32: "take_bit 32 ip = ip"
    using assms(2,3) by (simp add: take_bit_int_eq_self)
  have bits: "bit ip n \<Longrightarrow> n < 32" for n
    using ip32 by (metis bit_take_bit_iff)
  have "ip AND ip_int_from_prefix p = ip \<longleftrightarrow> (\<forall>n. bit ip n \<longrightarrow> 32 - p \<le> n)"
    using bits by (auto simp: bit_eq_iff bit_and_iff bit_ip_int_from_prefix [OF assms(1)])
  also have "\<dots> \<longleftrightarrow> take_bit (32 - p) ip = 0"
    by (simp add: bit_eq_iff bit_take_bit_iff) (meson not_le)
  also have "\<dots> \<longleftrightarrow> ip mod 2 ^ (32 - p) = 0"
    by (simp add: take_bit_eq_mod)
  finally show ?thesis .
qed

lemma make_netmask_str_nat:
  "make_netmask (MaskStr (str_nat p)) =
     (if p \<le> 32 then Inr (ip_int_from_prefix p, p) else Inl NetmaskValueError)"
proof (cases "p \<le> 32")
  case True
  then show ?thesis
    using ip_int_from_prefix_range [OF True]
    by (simp add: make_netmask_def prefix_from_prefix_string_str_nat IPv4Address_int_def)
next
  case False
  then show ?thesis
    by (simp add: make_netmask_def prefix_from_prefix_string_str_nat prefix_from_ip_string_str_nat)
qed

lemma address_int_bound:
  assumes "a \<le> 255" "b \<le> 255" "c \<le> 255" "d \<le> 255"
  shows "address_int a b c d < 2 ^ 32"
proof -
  have "a * 2 ^ 24 \<le> 255 * 2 ^ 24" "b * 2 ^ 16 \<le> 255 * 2 ^ 16" "c * 2 ^ 8 \<le> 255 * 2 ^ 8"
    using assms by simp_all
  then show ?thesis
    using assms(4) by (simp add: address_int_def)
qed

subsection \<open>The network of a canonical text\<close>

lemma IPv4Network_bad_octets:
  assumes "\<not> (a \<le> 255 \<and> b \<le> 255 \<and> c \<le> 255 \<and> d \<le> 255)"
  shows "IPv4Network (cidr_string a b c d p) = Inl AddressValueError"
proof -
  have "IPv4Address_str (dotted_quad a b c d) = Inl AddressValueError"
    using assms by (simp only: IPv4Address_str_dotted_quad if_False)
  then show ?thesis
    by (simp add: IPv4Network_def split_addr_prefix_cidr_string)
qed

lemma IPv4Network_bad_prefix:
  assumes "a \<le> 255 \<and> b \<le> 255 \<and> c \<le> 255 \<and> d \<le> 255" "\<not> p \<le> 32"
  shows "IPv4Network (cidr_string a b c d p) = Inl NetmaskValueError"
proof -
  have "IPv4Address_str (dotted_quad a b c d) = Inr (int (address_int a b c d))"
    using assms(1) by (simp only: IPv4Address_str_dotted_quad simp_thms if_True)
  moreover have "make_netmask (MaskStr (str_nat p)) = Inl NetmaskValueError"
    using assms(2) by (simp only: make_netmask_str_nat simp_thms if_False)
  ultimately show ?thesis
    by (simp add: IPv4Network_def split_addr_prefix_cidr_string)
qed

lemma IPv4Network_good:
  assumes "a \<le> 255 \<and> b \<le> 255 \<and> c \<le> 255 \<and> d \<le> 255" "p \<le> 32"
  shows "IPv4Network (cidr_string a b c d p) =
     (if int (address_int a b c d) AND ip_int_from_prefix p \<noteq> int (address_int a b c d)
      then Inl ValueError
      else Inr \<lparr>net_address = int (address_int a b c d), net_mask = ip_int_from_prefix p,
                net_prefixlen = p\<rparr>)"
proof -
  have "IPv4Address_str (dotted_quad a b c d) = Inr (int (address_int a b c d))"
    using assms(1) by (simp only: IPv4Address_str_dotted_quad simp_thms if_True)
  moreover have "make_netmask (MaskStr (str_nat p)) = Inr (ip_int_from_prefix p, p)"
    using assms(2) by (simp only: make_netmask_str_nat simp_thms if_True)
  ultimately show ?thesis
    by (simp add: IPv4Network_def split_addr_prefix_cidr_string Let_def
        del: of_nat_add of_nat_mult of_nat_power)
qed

lemma host_bits_nat:
  assumes "a \<le> 255 \<and> b \<le> 255 \<and> c \<le> 255 \<and> d \<le> 255" "p \<le> 32"
  shows "int (address_int a b c d) AND ip_int_from_prefix p = int (address_int a b c d)
     \<longleftrightarrow> address_int a b c d mod 2 ^ (32 - p) = 0"
proof -
  have "address_int a b c d < 2 ^ 32"
    using assms(1) address_int_bound [of a b c d] by blast
  then have "int (address_int a b c d) < int (2 ^ 32)"
    by (simp only: of_nat_less_iff)
  then have bound: "int (address_int a b c d) < 2 ^ 32"
    by simp
  have "int (address_int a b c d) AND ip_int_from_prefix p = int (address_int a b c d)
      \<longleftrightarrow> int (address_int a b c d) mod 2 ^ (32 - p) = 0"
    by (rule host_bits [OF assms(2) _ bound]) simp
  also have "int (address_int a b c d) mod 2 ^ (32 - p) = int (address_int a b c d mod 2 ^ (32 - p))"
    by (simp add: zmod_int)
  also have "int (address_int a b c d mod 2 ^ (32 - p)) = 0
      \<longleftrightarrow> address_int a b c d mod 2 ^ (32 - p) = 0"
    by (simp only: of_nat_eq_0_iff)
  finally show ?thesis .
qed

lemma cidr_accepted_cidr_string:
  "cidr_accepted (cidr_string a b c d p) \<longleftrightarrow>
     a \<le> 255 \<and> b \<le> 255 \<and> c \<le> 255 \<and> d \<le> 255 \<and> p \<le> 32 \<and>
     address_int a b c d mod 2 ^ (32 - p) = 0"
proof (cases "a \<le> 255 \<and> b \<le> 255 \<and> c \<le> 255 \<and> d \<le> 255")
  case False
  have "\<not> cidr_accepted (cidr_string a b c d p)"
    by (simp only: cidr_accepted_def IPv4Network_bad_octets [OF False] sum.case simp_thms)
  with False show ?thesis
    by blast
next
  case octets: True
  show ?thesis
  proof (cases "p \<le> 32")
    case False
    have "\<not> cidr_accepted (cidr_string a b c d p)"
      by (simp only: cidr_accepted_def IPv4Network_bad_prefix [OF octets False] sum.case simp_thms)
    with False show ?thesis
      by blast
  next
    case True
    show ?thesis
    proof (cases "address_int a b c d mod 2 ^ (32 - p) = 0")
      case zero: True
      then have "int (address_int a b c d) AND ip_int_from_prefix p = int (address_int a b c d)"
        by (simp only: host_bits_nat [OF octets True])
      then have "IPv4Network (cidr_string a b c d p) =
          Inr \<lparr>net_address = int (address_int a b c d), net_mask = ip_int_from_prefix p,
                net_prefixlen = p\<rparr>"
        by (simp only: IPv4Network_good [OF octets True] simp_thms if_False)
      then show ?thesis
        using octets True zero by (simp only: cidr_accepted_def sum.case simp_thms)
    next
      case nonzero: False
      then have "int (address_int a b c d) AND ip_int_from_prefix p \<noteq> int (address_int a b c d)"
        by (simp only: host_bits_nat [OF octets True] simp_thms)
      then have "IPv4Network (cidr_string a b c d p) = Inl ValueError"
        by (simp only: IPv4Network_good [OF octets True] simp_thms if_True)
      then show ?thesis
        using nonzero by (simp only: cidr_accepted_def sum.case simp_thms)
    qed
  qed
qed

text \<open>
  Claim C2, as amended. On the canonical text of four numbers and a prefix length,
  \<open>validate_cidr\<close> returns True exactly when every number is at most 255, the prefix length
  is at most 32 and the address has no bit set below the prefix (the address is a multiple
  of \<open>2 ^ (32 - p)\<close>); in every other case it prints the error message and returns False.
\<close>

theorem validate_cidr_canonical:
  "validate_cidr (cidr_string a b c d p) w =
     (if a \<le> 255 \<and> b \<le> 255 \<and> c \<le> 255 \<and> d \<le> 255 \<and> p \<le> 32 \<and>
         address_int a b c d mod 2 ^ (32 - p) = 0
      then (True, w)
      else (False, py_print msg_invalid_cidr w))"
proof (cases "cidr_accepted (cidr_string a b c d p)")
  case True
  then show ?thesis
    by (simp only: validate_cidr_eq cidr_accepted_cidr_string [symmetric] if_True)
next
  case False
  then show ?thesis
    by (simp only: validate_cidr_eq cidr_accepted_cidr_string [symmetric] if_False)
qed

lemma demo_cidr_strings:
  "cidr_string 192 168 1 1 24 = ''192.168.1.1/24''" "cidr_string 10 0 0 0 8 = ''10.0.0.0/8''"
  by code_simp+

lemma demo_host_bits:
  "address_int 192 168 1 1 mod 2 ^ (32 - 24) \<noteq> 0" "address_int 10 0 0 0 mod 2 ^ (32 - 8) = 0"
  by (simp_all add: address_int_def)

theorem validate_cidr_canonical_witness:
  "cidr_string 10 0 0 0 8 = ''10.0.0.0/8'' \<and>
   validate_cidr ''10.0.0.0/8'' demo_world = (True, demo_world) \<and>
   address_int 10 0 0 0 mod 2 ^ (32 - 8) = 0"
proof -
  have "validate_cidr (cidr_string 10 0 0 0 8) demo_world = (True, demo_world)"
    by (simp only: validate_cidr_canonical [of 10 0 0 0 8 demo_world] demo_host_bits) simp
  then have "validate_cidr ''10.0.0.0/8'' demo_world = (True, demo_world)"
    by (simp only: demo_cidr_strings)
  with demo_cidr_strings(2) demo_host_bits(2) show ?thesis
    by (intro conjI)
qed

text \<open>
  The claim as stated fails: \<open>192.168.1.1/24\<close> is a well-formed address with a prefix
  length within 0 to 32, and \<open>validate_cidr\<close> rejects it, because \<open>IPv4Network\<close> is strict
  about host bits.
\<close>

theorem validate_cidr_host_bits_rejected:
  "cidr_string 192 168 1 1 24 = ''192.168.1.1/24'' \<and>
   \<not> fst (validate_cidr ''192.168.1.1/24'' demo_world)"
proof -
  have "\<not> cidr_accepted ''192.168.1.1/24''"
    by code_simp
  then have "\<not> fst (validate_cidr ''192.168.1.1/24'' demo_world)"
    by (simp only: validate_cidr_eq fst_conv simp_thms)
  with demo_cidr_strings(1) show ?thesis
    by (intro conjI)
qed

section \<open>The hosts of a scan\<close>

lemma printed_hosts_append: "printed_hosts (xs @ ys) = printed_hosts xs @ printed_hosts ys"
  by (induction xs rule: printed_hosts.induct) simp_all

lemma scan_targets_append: "scan_targets (xs @ ys) = scan_targets xs @ scan_targets ys"
  by (induction xs rule: scan_targets.induct) simp_all

lemma scan_targets_prints: "scan_targets (map Print ls) = []"
  by (induction ls) simp_all

lemma startswith_hd: "l = [] \<or> hd l \<noteq> CHR ''H'' \<Longrightarrow> \<not> startswith l ''Host: ''"
  by (cases l) auto

lemma printed_hosts_none:
  "(\<And>l. l \<in> set ls \<Longrightarrow> l = [] \<or> hd l \<noteq> CHR ''H'') \<Longrightarrow> printed_hosts (map Print ls) = []"
  by (induction ls) (simp_all add: startswith_hd)

lemma printed_hosts_protocols:
  "printed_hosts (map Print (concat (map protocol_lines prs))) = []"
  by (rule printed_hosts_none) (auto simp: protocol_lines_def port_line_def)

lemma printed_hosts_host_lines: "printed_hosts (map Print (host_lines h)) = [hr_host h]"
proof -
  have "printed_hosts (map Print (host_lines h)) =
      printed_hosts [Print (''Host: '' @ hr_host h), Print (''State: '' @ hr_state h)] @
      printed_hosts (map Print (concat (map protocol_lines (hr_protocols h))))"
    unfolding host_lines_def map_append printed_hosts_append by simp
  then show ?thesis
    by (simp add: printed_hosts_protocols)
qed

lemma printed_hosts_report: "printed_hosts (map Print (report_lines hosts)) = map hr_host hosts"
  by (induction hosts)
     (simp_all add: report_lines_def printed_hosts_append printed_hosts_host_lines)

lemma printed_hosts_messages:
  "printed_hosts [Print msg_invalid_format] = []"
  "printed_hosts [Print (msg_overwrite f)] = []"
  "printed_hosts [Print (msg_complete f)] = []"
  by (simp_all add: msg_invalid_format_def msg_overwrite_def msg_complete_def)

lemma scan_network_new_events:
  assumes "port_scanner w target options = Some hosts"
    and "output_flags (effective_format output_format) = Some flag"
    and "fname = generate_unique_filename (effective_format output_format) target w"
    and "command = ''nmap '' @ flag @ '' '' @ fname @ '' '' @ options @ '' '' @ target"
    and "r = process_lines (tqdm_new 1000) (popen_stdout w command)"
  shows "new_events w (snd (scan_network target options output_format w)) =
     [PortScan target options] @ map Print (report_lines hosts) @
     (if output_format \<in> set valid_formats then [] else [Print msg_invalid_format]) @
     (if path_exists w fname then [Print (msg_overwrite fname)] else []) @
     [Popen command] @
     (case snd r of Some e \<Rightarrow> [] | None \<Rightarrow> [Print (msg_complete fname)])"
  unfolding scan_network_unfold [OF assms] new_events_def
  by simp

lemma printed_hosts_events:
  "printed_hosts
     ([PortScan target options] @ map Print (report_lines hosts) @
      (if valid then [] else [Print msg_invalid_format]) @
      (if exists then [Print (msg_overwrite fname)] else []) @
      [Popen command] @
      (case err of Some (e :: py_error) \<Rightarrow> [] | None \<Rightarrow> [Print (msg_complete fname)])) =
   map hr_host hosts"
proof -
  have a: "printed_hosts (if valid then [] else [Print msg_invalid_format]) = []"
    by (cases valid) (simp_all only: if_True if_False printed_hosts_messages printed_hosts.simps(1))
  have b: "printed_hosts (if exists then [Print (msg_overwrite fname)] else []) = []"
    by (cases exists) (simp_all only: if_True if_False printed_hosts_messages printed_hosts.simps(1))
  have c: "printed_hosts (case err of Some (e :: py_error) \<Rightarrow> [] | None \<Rightarrow> [Print (msg_complete fname)]) = []"
    by (cases err) (simp_all only: option.case printed_hosts_messages printed_hosts.simps(1))
  have d: "printed_hosts [PortScan target options] = []" "printed_hosts [Popen command] = []"
    by (simp_all only: printed_hosts.simps)
  show ?thesis
    by (simp only: printed_hosts_append printed_hosts_report a b c d append_Nil append_Nil2)
qed

lemma scan_targets_events:
  "scan_targets
     ([PortScan target options] @ map Print (report_lines hosts) @
      (if valid then [] else [Print msg_invalid_format]) @
      (if exists then [Print (msg_overwrite fname)] else []) @
      [Popen command] @
      (case err of Some (e :: py_error) \<Rightarrow> [] | None \<Rightarrow> [Print (msg_complete fname)])) =
   [target]"
proof -
  have a: "scan_targets (if valid then [] else [Print msg_invalid_format]) = []"
    by (cases valid) (simp_all only: if_True if_False scan_targets.simps)
  have b: "scan_targets (if exists then [Print (msg_overwrite fname)] else []) = []"
    by (cases exists) (simp_all only: if_True if_False scan_targets.simps)
  have c: "scan_targets (case err of Some (e :: py_error) \<Rightarrow> [] | None \<Rightarrow> [Print (msg_complete fname)]) = []"
    by (cases err) (simp_all only: option.case scan_targets.simps)
  have d: "scan_targets [PortScan target options] = [target]" "scan_targets [Popen command] = []"
    by (simp_all only: scan_targets.simps)
  show ?thesis
    by (simp only: scan_targets_append scan_targets_prints a b c d append_Nil append_Nil2)
qed

text \<open>
  Claim C9, as amended. The script expands no range into addresses. It hands the text of
  the range unchanged to the library's scan, and the hosts it goes through are exactly the
  hosts that scan reports, in the order reported.
\<close>

theorem scan_network_hosts_as_reported:
  assumes "port_scanner w target options = Some hosts"
  shows "printed_hosts (new_events w (snd (scan_network target options output_format w))) =
           map hr_host hosts \<and>
         scan_targets (new_events w (snd (scan_network target options output_format w))) =
           [target]"
proof -
  obtain flag where flag: "output_flags (effective_format output_format) = Some flag"
    using effective_format_flag by blast
  note ev = scan_network_new_events [OF assms flag refl refl refl]
  have hosts: "printed_hosts (new_events w (snd (scan_network target options output_format w))) =
      map hr_host hosts"
    unfolding ev by (rule printed_hosts_events)
  have targets: "scan_targets (new_events w (snd (scan_network target options output_format w))) =
      [target]"
    unfolding ev by (rule scan_targets_events)
  from hosts targets show ?thesis
    by (intro conjI)
qed

lemma lone_host_scanner:
  "port_scanner lone_host_world ''192.168.1.0/30'' ''-sS'' =
     Some [\<lparr>hr_host = ''192.168.1.1'', hr_state = ''up'', hr_protocols = []\<rparr>]"
  by (simp add: lone_host_world_def)

theorem scan_network_hosts_as_reported_witness:
  "port_scanner lone_host_world ''192.168.1.0/30'' ''-sS'' =
     Some [\<lparr>hr_host = ''192.168.1.1'', hr_state = ''up'', hr_protocols = []\<rparr>] \<and>
   printed_hosts
     (new_events lone_host_world (snd (scan_network ''192.168.1.0/30'' ''-sS'' ''xml'' lone_host_world))) =
     [''192.168.1.1''] \<and>
   scan_targets
     (new_events lone_host_world (snd (scan_network ''192.168.1.0/30'' ''-sS'' ''xml'' lone_host_world))) =
     [''192.168.1.0/30'']"
proof -
  note inst = scan_network_hosts_as_reported [OF lone_host_scanner, of "''xml''"]
  from inst have "printed_hosts
     (new_events lone_host_world (snd (scan_network ''192.168.1.0/30'' ''-sS'' ''xml'' lone_host_world))) =
     map hr_host [\<lparr>hr_host = ''192.168.1.1'', hr_state = ''up'', hr_protocols = []\<rparr>]"
    by (rule conjunct1)
  then have hosts: "printed_hosts
     (new_events lone_host_world (snd (scan_network ''192.168.1.0/30'' ''-sS'' ''xml'' lone_host_world))) =
     [''192.168.1.1'']"
    by simp
  from inst have targets: "scan_targets
     (new_events lone_host_world (snd (scan_network ''192.168.1.0/30'' ''-sS'' ''xml'' lone_host_world))) =
     [''192.168.1.0/30'']"
    by blast
  from lone_host_scanner hosts targets show ?thesis
    by (intro conjI)
qed

text \<open>
  The claim as stated fails: for \<open>192.168.1.0/30\<close>, when the scan reports the single host
  \<open>192.168.1.1\<close>, the script goes through one host, not through the two addresses
  \<open>192.168.1.1\<close> and \<open>192.168.1.2\<close> that \<open>2 ^ (32 - 30) - 2\<close> counts.
\<close>

theorem enumeration_not_by_prefix:
  "length (printed_hosts
     (new_events lone_host_world
        (snd (scan_network ''192.168.1.0/30'' ''-sS'' ''xml'' lone_host_world)))) = 1 \<and>
   printed_hosts
     (new_events lone_host_world
        (snd (scan_network ''192.168.1.0/30'' ''-sS'' ''xml'' lone_host_world))) \<noteq>
     [''192.168.1.1'', ''192.168.1.2''] \<and>
   (2 :: nat) ^ (32 - 30) - 2 = 2"
proof -
  obtain flag where flag: "output_flags (effective_format ''xml'') = Some flag"
    using effective_format_flag by blast
  have "printed_hosts
     (new_events lone_host_world
        (snd (scan_network ''192.168.1.0/30'' ''-sS'' ''xml'' lone_host_world))) =
     map hr_host [\<lparr>hr_host = ''192.168.1.1'', hr_state = ''up'', hr_protocols = []\<rparr>]"
    unfolding scan_network_new_events [OF lone_host_scanner flag refl refl refl]
    by (rule printed_hosts_events)
  then have "printed_hosts
     (new_events lone_host_world
        (snd (scan_network ''192.168.1.0/30'' ''-sS'' ''xml'' lone_host_world))) =
     [''192.168.1.1'']"
    by simp
  then show ?thesis
    by simp
qed

section \<open>The overwrite warning\<close>

lemma msg_overwrite_not_reported: "msg_overwrite f \<notin> set (report_lines hosts)"
proof
  assume "msg_overwrite f \<in> set (report_lines hosts)"
  from report_lines_hd [OF this] show False
    by (simp add: msg_overwrite_def)
qed

lemma msg_overwrite_distinct:
  "msg_invalid_format \<noteq> msg_overwrite f" "msg_complete g \<noteq> msg_overwrite f"
  "msg_overwrite f \<noteq> msg_invalid_format" "msg_overwrite f \<noteq> msg_complete g"
  by (simp_all add: msg_overwrite_def msg_complete_def msg_invalid_format_def)

text \<open>
  The overwrite warning is printed exactly when the generated name exists. Writing the file
  is left to the \<open>nmap\<close> process.
\<close>

lemma scan_network_overwrite_warning:
  assumes "port_scanner w target options = Some hosts"
    and "fname = generate_unique_filename (effective_format output_format) target w"
  shows "Print (msg_overwrite fname) \<in>
           set (new_events w (snd (scan_network target options output_format w)))
         \<longleftrightarrow> path_exists w fname"
proof -
  obtain flag where flag: "output_flags (effective_format output_format) = Some flag"
    using effective_format_flag by blast
  have rep: "Print (msg_overwrite fname) \<notin> Print ` set (report_lines hosts)"
    using msg_overwrite_not_reported [of fname hosts] by auto
  show ?thesis
    unfolding scan_network_new_events [OF assms(1) flag assms(2) refl refl]
    using rep by (simp add: msg_overwrite_distinct split: option.split)
qed

end
